theory Spec2Isabelle
  imports Main "HOL-Library.Sublist"
begin

section \<open>Data model (pkg/program.go)\<close>

text \<open>
  Errors are values. \<open>External\<close> is an error produced outside this package (the
  operating system, the YAML decoder, the value renderer); \<open>ExitError\<close> is the error
  \<open>os/exec\<close> reports for a child that ran and exited with a non-zero status;
  \<open>Wrapf e msg\<close> is \<open>errors.Wrapf(e, msg)\<close>; \<open>Errorf msg\<close> is \<open>fmt.Errorf(msg)\<close>;
  \<open>NilDereference\<close> is the run-time panic of reading a field through a nil pointer,
  \<open>IndexOutOfRange\<close> that of indexing a slice beyond its length.
\<close>

datatype error =
    External string
  | ExitError int
  | Wrapf error string
  | Errorf string
  | NilDereference
  | IndexOutOfRange

text \<open>
  \<open>Parameter\<close>, field by field. \<open>Type\<close> is \<open>parameters.ParameterType\<close>, a string type.
  \<open>Value\<close> is an \<open>interface{}\<close>: its representation \<open>'v\<close> is left open here and fixed
  where a claim needs it.
\<close>

record 'v Parameter =
  Name :: string
  Flag :: string
  Short :: string
  Type :: string
  Value :: 'v
  Raw :: string
  NoValue :: bool

text \<open>
  \<open>Program\<close>, field by field. The representation of its slices and maps is a type
  parameter: \<open>'ss\<close> for \<open>[]string\<close>, \<open>'ps\<close> for \<open>[]*Parameter\<close>, \<open>'m\<close> for
  \<open>map[string]string\<close>. Functions that only read a program take them by content
  (\<open>program\<close> below); \<open>Clone\<close>, where sharing matters, takes them as references into a
  store.
\<close>

record ('ss, 'ps, 'm) Program =
  Name :: string
  Path :: string
  Verbs :: 'ss
  Description :: string
  Env :: 'm
  RawFlags :: 'ss
  Flags :: 'ps
  Args :: 'ps
  Stdin :: string
  ExpectedStdout :: string
  ExpectedError :: string
  ExpectedStatusCode :: int
  ExpectedFiles :: 'm

text \<open>
  A program by content: slices as lists, maps as partial functions. An element of
  \<open>Flags\<close> or \<open>Args\<close> is a pointer, \<open>None\<close> when it is nil.
\<close>

type_synonym 'v program =
  "(string list, 'v Parameter option list, string \<rightharpoonup> string) Program"

text \<open>
  \<open>parameters.RenderValue\<close> belongs to another module; it is a parameter \<open>rv\<close> of the
  model, taking the parameter type and a value to the rendered text or an error.
\<close>

type_synonym 'v renderer = "string \<Rightarrow> 'v \<Rightarrow> error + string"

section \<open>ComputeArgs\<close>

text \<open>The loop over \<open>p.Flags\<close>, with \<open>args\<close> as accumulator.\<close>

fun flags_loop ::
  "'v renderer \<Rightarrow> (string \<rightharpoonup> 'v) \<Rightarrow> 'v Parameter option list \<Rightarrow> string list
    \<Rightarrow> error + string list"
where
  "flags_loop rv ps [] args = Inr args"
| "flags_loop rv ps (None # rest) args = Inl NilDereference"
| "flags_loop rv ps (Some flag # rest) args =
     (let flag' = (if Flag flag = [] then ''--'' @ Parameter.Name flag else Flag flag) in
      if NoValue flag then flags_loop rv ps rest (args @ [flag'])
      else
        case (case ps (Parameter.Name flag) of
                None \<Rightarrow> Inr (Raw flag)
              | Some v \<Rightarrow> rv (Type flag) v) of
          Inl err \<Rightarrow> Inl (Wrapf err (''could not render flag '' @ Parameter.Name flag))
        | Inr value' \<Rightarrow>
            (case (if value' = [] then rv (Type flag) (Value flag) else Inr value') of
               Inl err \<Rightarrow> Inl (Wrapf err (''could not render flag '' @ Parameter.Name flag))
             | Inr value'' \<Rightarrow> flags_loop rv ps rest (args @ [flag'] @ [value''])))"

text \<open>The loop over \<open>p.Args\<close>.\<close>

fun args_loop ::
  "'v renderer \<Rightarrow> (string \<rightharpoonup> 'v) \<Rightarrow> 'v Parameter option list \<Rightarrow> string list
    \<Rightarrow> error + string list"
where
  "args_loop rv ps [] args = Inr args"
| "args_loop rv ps (None # rest) args = Inl NilDereference"
| "args_loop rv ps (Some arg # rest) args =
     (case (case ps (Parameter.Name arg) of
              None \<Rightarrow> Inr (Raw arg)
            | Some v \<Rightarrow> rv (Type arg) v) of
        Inl err \<Rightarrow> Inl (Wrapf err (''could not render arg '' @ Parameter.Name arg))
      | Inr value' \<Rightarrow>
          (case (if value' = [] then rv (Type arg) (Value arg) else Inr value') of
             Inl err \<Rightarrow> Inl (Wrapf err (''could not render arg '' @ Parameter.Name arg))
           | Inr value'' \<Rightarrow> args_loop rv ps rest (args @ [value''])))"

definition ComputeArgs :: "'v renderer \<Rightarrow> 'v program \<Rightarrow> (string \<rightharpoonup> 'v) \<Rightarrow> error + string list"
where
  "ComputeArgs rv p ps =
     (case flags_loop rv ps (Flags p) (([] @ Verbs p) @ RawFlags p) of
        Inl err \<Rightarrow> Inl err
      | Inr args \<Rightarrow> args_loop rv ps (Args p) args)"

text \<open>
  The words of the specification, to compare \<open>ComputeArgs\<close> with. The token of a flag
  is \<open>Flag\<close> if set, else \<open>"--" + Name\<close>. The value of a parameter is resolved by the
  chain: (a) the runtime entry keyed by \<open>Name\<close>, rendered for \<open>Type\<close>; (b) without such
  an entry, \<open>Raw\<close>; (c) if (a) or (b) gave the empty string, the rendering of \<open>Value\<close>.
\<close>

definition spec_token :: "'v Parameter \<Rightarrow> string" where
  "spec_token x = (if Flag x \<noteq> [] then Flag x else ''--'' @ Parameter.Name x)"

definition spec_resolve ::
  "'v renderer \<Rightarrow> (string \<rightharpoonup> 'v) \<Rightarrow> 'v Parameter \<Rightarrow> error + string"
where
  "spec_resolve rv ps x =
     (case (case ps (Parameter.Name x) of
              Some v \<Rightarrow> rv (Type x) v
            | None \<Rightarrow> Inr (Raw x)) of
        Inl e \<Rightarrow> Inl e
      | Inr s \<Rightarrow> if s = [] then rv (Type x) (Value x) else Inr s)"

definition flag_tokens :: "'v renderer \<Rightarrow> (string \<rightharpoonup> 'v) \<Rightarrow> 'v Parameter \<Rightarrow> string list"
where
  "flag_tokens rv ps f =
     (if NoValue f then [spec_token f] else [spec_token f, projr (spec_resolve rv ps f)])"

text \<open>
  \<open>ComputeArgs\<close> in a world. What a call of \<open>parameters.RenderValue\<close> returns may
  depend on more than its two arguments (the order in which a map is walked, a
  clock, a global), and a call may change that: \<open>'w\<close> is the state of everything
  outside the two inputs, and a renderer takes it and returns it. The loops and
  \<open>ComputeArgs\<close> are the same statements as above, with the world threaded through the
  calls of the renderer in the order the code makes them; nothing else in them
  reads or writes it.
\<close>

type_synonym ('w, 'v) world_renderer = "'w \<Rightarrow> string \<Rightarrow> 'v \<Rightarrow> (error + string) \<times> 'w"

fun flags_loop_in ::
  "('w, 'v) world_renderer \<Rightarrow> (string \<rightharpoonup> 'v) \<Rightarrow> 'v Parameter option list \<Rightarrow> string list
    \<Rightarrow> 'w \<Rightarrow> (error + string list) \<times> 'w"
where
  "flags_loop_in rv ps [] args w = (Inr args, w)"
| "flags_loop_in rv ps (None # rest) args w = (Inl NilDereference, w)"
| "flags_loop_in rv ps (Some flag # rest) args w =
     (let flag' = (if Flag flag = [] then ''--'' @ Parameter.Name flag else Flag flag) in
      if NoValue flag then flags_loop_in rv ps rest (args @ [flag']) w
      else
        case (case ps (Parameter.Name flag) of
                None \<Rightarrow> (Inr (Raw flag), w)
              | Some v \<Rightarrow> rv w (Type flag) v) of
          (Inl err, w1) \<Rightarrow>
            (Inl (Wrapf err (''could not render flag '' @ Parameter.Name flag)), w1)
        | (Inr value', w1) \<Rightarrow>
            (case (if value' = [] then rv w1 (Type flag) (Value flag) else (Inr value', w1)) of
               (Inl err, w2) \<Rightarrow>
                 (Inl (Wrapf err (''could not render flag '' @ Parameter.Name flag)), w2)
             | (Inr value'', w2) \<Rightarrow>
                 flags_loop_in rv ps rest (args @ [flag'] @ [value'']) w2))"

fun args_loop_in ::
  "('w, 'v) world_renderer \<Rightarrow> (string \<rightharpoonup> 'v) \<Rightarrow> 'v Parameter option list \<Rightarrow> string list
    \<Rightarrow> 'w \<Rightarrow> (error + string list) \<times> 'w"
where
  "args_loop_in rv ps [] args w = (Inr args, w)"
| "args_loop_in rv ps (None # rest) args w = (Inl NilDereference, w)"
| "args_loop_in rv ps (Some arg # rest) args w =
     (case (case ps (Parameter.Name arg) of
              None \<Rightarrow> (Inr (Raw arg), w)
            | Some v \<Rightarrow> rv w (Type arg) v) of
        (Inl err, w1) \<Rightarrow>
          (Inl (Wrapf err (''could not render arg '' @ Parameter.Name arg)), w1)
      | (Inr value', w1) \<Rightarrow>
          (case (if value' = [] then rv w1 (Type arg) (Value arg) else (Inr value', w1)) of
             (Inl err, w2) \<Rightarrow>
               (Inl (Wrapf err (''could not render arg '' @ Parameter.Name arg)), w2)
           | (Inr value'', w2) \<Rightarrow> args_loop_in rv ps rest (args @ [value'']) w2))"

definition ComputeArgs_in ::
  "('w, 'v) world_renderer \<Rightarrow> 'v program \<Rightarrow> (string \<rightharpoonup> 'v) \<Rightarrow> 'w
    \<Rightarrow> (error + string list) \<times> 'w"
where
  "ComputeArgs_in rv p ps w =
     (case flags_loop_in rv ps (Flags p) (([] @ Verbs p) @ RawFlags p) w of
        (Inl err, w1) \<Rightarrow> (Inl err, w1)
      | (Inr args, w1) \<Rightarrow> args_loop_in rv ps (Args p) args w1)"

section \<open>RunIntoWriter\<close>

text \<open>
  The command handed to \<open>os/exec\<close>: \<open>exec.CommandContext(ctx, path, args...)\<close> sets
  \<open>Path\<close> and \<open>Args = path : args\<close>; \<open>Env\<close> and \<open>Stdin\<close> are assigned afterwards
  (\<open>None\<close>: no reader is attached).
\<close>

record Cmd =
  cmd_Path :: string
  cmd_Args :: "string list"
  cmd_Env :: "string list"
  cmd_Stdin :: "string option"

text \<open>
  What the function asks of the operating system: \<open>exec.LookPath\<close>, \<open>os.Environ\<close>,
  the order in which \<open>range\<close> yields the entries of a map (the language leaves it
  open), and what happens to a started command under a context: it cannot be started
  (an error), or it runs and exits with a status, having written its combined output.
\<close>

record 'c system =
  LookPath :: "string \<Rightarrow> error + string"
  Environ :: "string list"
  range_map :: "(string \<rightharpoonup> string) \<Rightarrow> (string \<times> string) list"
  Start :: "'c \<Rightarrow> Cmd \<Rightarrow> error + (int \<times> string)"

text \<open>
  \<open>cmd.Run()\<close> as \<open>os/exec\<close> documents it: the returned error is nil if the command
  runs and exits with a zero exit status; if it starts but does not complete
  successfully, the error is an \<open>*ExitError\<close>; other failures are returned as they are.
  The second component is what the child wrote to its output.
\<close>

definition cmd_Run :: "'c system \<Rightarrow> 'c \<Rightarrow> Cmd \<Rightarrow> error option \<times> string" where
  "cmd_Run sys ctx cmd =
     (case Start sys ctx cmd of
        Inl err \<Rightarrow> (Some err, [])
      | Inr (status, output) \<Rightarrow>
          ((if status = 0 then None else Some (ExitError status)), output))"

text \<open>
  \<open>RunIntoWriter\<close> returns its error (\<open>None\<close> is nil), the contents of the writer
  \<open>w\<close> afterwards, and the command it ran, if it got that far.
\<close>

definition RunIntoWriter ::
  "'c system \<Rightarrow> 'v renderer \<Rightarrow> 'v program \<Rightarrow> 'c \<Rightarrow> 'l \<Rightarrow> (string \<rightharpoonup> 'v) \<Rightarrow> string
    \<Rightarrow> error option \<times> string \<times> Cmd option"
where
  "RunIntoWriter sys rv p ctx parsedLayers ps w =
     (case (if Path p = [] then
              (case LookPath sys (Program.Name p) of
                 Inl err \<Rightarrow> Inl (Wrapf err (''could not find executable '' @ Program.Name p))
               | Inr path \<Rightarrow> Inr path)
            else Inr (Path p)) of
        Inl err \<Rightarrow> (Some err, w, None)
      | Inr path \<Rightarrow>
          (case ComputeArgs rv p ps of
             Inl err2 \<Rightarrow> (Some err2, w, None)
           | Inr args \<Rightarrow>
               (let cmd = \<lparr> cmd_Path = path, cmd_Args = path # args,
                            cmd_Env = ([] @ Environ sys)
                              @ map (\<lambda>(k, v). k @ ''='' @ v) (range_map sys (Env p)),
                            cmd_Stdin = (if Stdin p \<noteq> [] then Some (Stdin p) else None) \<rparr>
                in case cmd_Run sys ctx cmd of
                     (Some err, output) \<Rightarrow>
                       (Some (Wrapf err (''could not run '' @ Program.Name p)), w @ output, Some cmd)
                   | (None, output) \<Rightarrow> (None, w @ output, Some cmd))))"


section \<open>LoadProgramsFromFS and LoadRepositories\<close>

text \<open>
  A file system tree as \<open>fs.FS\<close> shows it: a file that opens with its contents, a
  file that \<open>Open\<close> refuses, a directory with the entries \<open>fs.ReadDir\<close> lists (in the
  order it lists them), a directory that \<open>fs.ReadDir\<close> refuses.
\<close>

datatype fsnode =
    File string
  | BadFile error
  | Dir "(string \<times> fsnode) list"
  | BadDir error

fun IsDir :: "fsnode \<Rightarrow> bool" where
  "IsDir (Dir _) = True"
| "IsDir (BadDir _) = True"
| "IsDir _ = False"

fun Open :: "fsnode \<Rightarrow> error + string" where
  "Open (File contents) = Inr contents"
| "Open (BadFile err) = Inl err"
| "Open _ = Inl (External ''is a directory'')"

text \<open>
  \<open>NewProgramFromYAML\<close>; the YAML decoder is a parameter.
\<close>

definition NewProgramFromYAML ::
  "(string \<Rightarrow> error + 'v program) \<Rightarrow> string \<Rightarrow> error + 'v program"
where
  "NewProgramFromYAML decode s =
     (case decode s of
        Inl err \<Rightarrow> Inl (Wrapf err ''could not decode program'')
      | Inr program \<Rightarrow> Inr program)"

text \<open>
  \<open>LoadProgramsFromFS\<close> is called on a directory of the tree, named by the path \<open>dir\<close>;
  the recursive call on \<open>filepath.Join(dir, entry.Name())\<close> reads the entry's own
  listing. \<open>filepath.Join\<close> is the parameter \<open>join\<close>. \<open>entries_loop\<close> is the loop over
  the entries, with \<open>programs\<close> as accumulator. Reading a file as a directory fails.
\<close>

function (sequential)
  LoadProgramsFromFS ::
    "(string \<Rightarrow> string \<Rightarrow> string) \<Rightarrow> (string \<Rightarrow> error + 'v program) \<Rightarrow> fsnode \<Rightarrow> string
      \<Rightarrow> error + 'v program list"
  and entries_loop ::
    "(string \<Rightarrow> string \<Rightarrow> string) \<Rightarrow> (string \<Rightarrow> error + 'v program)
      \<Rightarrow> (string \<times> fsnode) list \<Rightarrow> string \<Rightarrow> 'v program list \<Rightarrow> error + 'v program list"
where
  "LoadProgramsFromFS join decode (Dir entries) dir = entries_loop join decode entries dir []"
| "LoadProgramsFromFS join decode (BadDir err) dir =
     Inl (Wrapf err (''could not read dir '' @ dir))"
| "LoadProgramsFromFS join decode (File contents) dir =
     Inl (Wrapf (External ''not a directory'') (''could not read dir '' @ dir))"
| "LoadProgramsFromFS join decode (BadFile err) dir =
     Inl (Wrapf (External ''not a directory'') (''could not read dir '' @ dir))"
| "entries_loop join decode [] dir programs = Inr programs"
| "entries_loop join decode ((name, entry) # rest) dir programs =
     (if prefix ''.'' name then entries_loop join decode rest dir programs
      else
        let fileName = join dir name in
        if IsDir entry then
          (case LoadProgramsFromFS join decode entry fileName of
             Inl err \<Rightarrow> Inl (Wrapf err (''could not load programs from dir '' @ fileName))
           | Inr programs' \<Rightarrow> entries_loop join decode rest dir (programs @ programs'))
        else if suffix ''.yaml'' name \<or> suffix ''.yml'' name then
          (case Open entry of
             Inl err \<Rightarrow> Inl (Wrapf err (''could not open file '' @ fileName))
           | Inr file \<Rightarrow>
               (case NewProgramFromYAML decode file of
                  Inl err \<Rightarrow> Inl (Wrapf err (''could not load program from file '' @ fileName))
                | Inr program \<Rightarrow> entries_loop join decode rest dir (programs @ [program])))
        else entries_loop join decode rest dir programs)"
  by pat_completeness auto
termination
  by (relation "measure (\<lambda>x. case x of
        Inl (_, _, node, _) \<Rightarrow> size node
      | Inr (_, _, entries, _, _) \<Rightarrow> size_list (size_prod (\<lambda>_. 0) size) entries)")
    auto

text \<open>
  \<open>LoadRepositories\<close>. \<open>stat\<close> is \<open>os.Stat\<close> followed by \<open>os.DirFS\<close>: an error, or
  the tree found at the path. \<open>merge_loop\<close> is the inner loop over the programs of one
  repository, \<open>repositories_loop\<close> the outer loop; the registry \<open>programs\<close> is threaded
  through both.
\<close>

fun merge_loop ::
  "'v program list \<Rightarrow> (string \<rightharpoonup> 'v program) \<Rightarrow> error + (string \<rightharpoonup> 'v program)"
where
  "merge_loop [] programs = Inr programs"
| "merge_loop (program # rest) programs =
     (if programs (Program.Name program) \<noteq> None
      then Inl (Errorf (''program '' @ Program.Name program @ '' already exists''))
      else merge_loop rest (programs(Program.Name program \<mapsto> program)))"

fun repositories_loop ::
  "(string \<Rightarrow> string \<Rightarrow> string) \<Rightarrow> (string \<Rightarrow> error + 'v program) \<Rightarrow> (string \<Rightarrow> error + fsnode)
    \<Rightarrow> string list \<Rightarrow> (string \<rightharpoonup> 'v program) \<Rightarrow> error + (string \<rightharpoonup> 'v program)"
where
  "repositories_loop join decode stat [] programs = Inr programs"
| "repositories_loop join decode stat (repository # rest) programs =
     (case stat repository of
        Inl err \<Rightarrow> Inl (Wrapf err (''could not stat repository '' @ repository))
      | Inr root \<Rightarrow>
          (case LoadProgramsFromFS join decode root ''.'' of
             Inl err \<Rightarrow>
               Inl (Wrapf err (''could not load programs from repository '' @ repository))
           | Inr programs' \<Rightarrow>
               (case merge_loop programs' programs of
                  Inl err \<Rightarrow> Inl err
                | Inr programs'' \<Rightarrow> repositories_loop join decode stat rest programs'')))"

definition LoadRepositories ::
  "(string \<Rightarrow> string \<Rightarrow> string) \<Rightarrow> (string \<Rightarrow> error + 'v program) \<Rightarrow> (string \<Rightarrow> error + fsnode)
    \<Rightarrow> string list \<Rightarrow> error + (string \<rightharpoonup> 'v program)"
where
  "LoadRepositories join decode stat repositories =
     repositories_loop join decode stat repositories Map.empty"

text \<open>
  To state what the loader does: the programs a repository contributes when it loads,
  and, in the words of the specification, the files of a tree that are decoded: those
  not under a dot-prefixed entry, not dot-prefixed themselves, that are not
  directories and whose name ends in \<open>.yaml\<close> or \<open>.yml\<close>, at any depth, each with its
  path; and the directories that are walked.
\<close>

definition loaded ::
  "(string \<Rightarrow> string \<Rightarrow> string) \<Rightarrow> (string \<Rightarrow> error + 'v program) \<Rightarrow> (string \<Rightarrow> error + fsnode)
    \<Rightarrow> string \<Rightarrow> 'v program list option"
where
  "loaded join decode stat repository =
     (case stat repository of
        Inl _ \<Rightarrow> None
      | Inr root \<Rightarrow>
          (case LoadProgramsFromFS join decode root ''.'' of
             Inl _ \<Rightarrow> None
           | Inr programs \<Rightarrow> Some programs))"

definition hidden :: "string \<Rightarrow> bool" where
  "hidden name = (name \<noteq> [] \<and> hd name = CHR ''.'')"

definition yaml_name :: "string \<Rightarrow> bool" where
  "yaml_name name = (suffix ''.yaml'' name \<or> suffix ''.yml'' name)"

function (sequential)
  yaml_files :: "(string \<Rightarrow> string \<Rightarrow> string) \<Rightarrow> fsnode \<Rightarrow> string \<Rightarrow> (string \<times> fsnode) list"
  and yaml_files_in ::
    "(string \<Rightarrow> string \<Rightarrow> string) \<Rightarrow> (string \<times> fsnode) list \<Rightarrow> string \<Rightarrow> (string \<times> fsnode) list"
where
  "yaml_files join (Dir entries) dir = yaml_files_in join entries dir"
| "yaml_files join _ dir = []"
| "yaml_files_in join [] dir = []"
| "yaml_files_in join ((name, entry) # rest) dir =
     (if hidden name then []
      else if IsDir entry then yaml_files join entry (join dir name)
      else if yaml_name name then [(join dir name, entry)]
      else [])
     @ yaml_files_in join rest dir"
  by pat_completeness auto
termination
  by (relation "measure (\<lambda>x. case x of
        Inl (_, node, _) \<Rightarrow> size node
      | Inr (_, entries, _) \<Rightarrow> size_list (size_prod (\<lambda>_. 0) size) entries)")
    auto

function (sequential)
  walked_dirs :: "fsnode \<Rightarrow> fsnode list"
  and walked_dirs_in :: "(string \<times> fsnode) list \<Rightarrow> fsnode list"
where
  "walked_dirs (Dir entries) = Dir entries # walked_dirs_in entries"
| "walked_dirs node = [node]"
| "walked_dirs_in [] = []"
| "walked_dirs_in ((name, entry) # rest) =
     (if \<not> hidden name \<and> IsDir entry then walked_dirs entry else [])
     @ walked_dirs_in rest"
  by pat_completeness auto
termination
  by (relation "measure (\<lambda>x. case x of
        Inl node \<Rightarrow> size node
      | Inr entries \<Rightarrow> size_list (size_prod (\<lambda>_. 0) size) entries)")
    auto

text \<open>
  A file decodes when it opens and the decoder accepts its contents; \<open>decoded\<close> is the
  program it then yields.
\<close>

definition decodable :: "(string \<Rightarrow> error + 'v program) \<Rightarrow> fsnode \<Rightarrow> bool" where
  "decodable decode f =
     (case f of
        File contents \<Rightarrow> (case decode contents of Inl _ \<Rightarrow> False | Inr _ \<Rightarrow> True)
      | _ \<Rightarrow> False)"

definition decoded :: "(string \<Rightarrow> error + 'v program) \<Rightarrow> fsnode \<Rightarrow> 'v program" where
  "decoded decode f = projr (decode (projr (Open f)))"

text \<open>The programs of a list of repositories that all load, in the order of loading.\<close>

definition all_loaded ::
  "(string \<Rightarrow> string \<Rightarrow> string) \<Rightarrow> (string \<Rightarrow> error + 'v program) \<Rightarrow> (string \<Rightarrow> error + fsnode)
    \<Rightarrow> string list \<Rightarrow> 'v program list"
where
  "all_loaded join decode stat repositories =
     concat (map (\<lambda>r. the (loaded join decode stat r)) repositories)"

section \<open>The change handler of watch mode (cmd/cliopatra/cmds/render.go)\<close>

text \<open>
  What the \<open>render\<close> command does to the outside: it logs, and it calls the renderer.
\<close>

datatype effect =
    LogInfo "(string \<times> string) list" string
  | RenderFile string string
  | RenderDirectory string string

text \<open>\<open>strings.TrimPrefix\<close>.\<close>

definition TrimPrefix :: "string \<Rightarrow> string \<Rightarrow> string" where
  "TrimPrefix s pre = (if prefix pre s then drop (length pre) s else s)"

text \<open>
  The loop that looks for the base path: \<open>basePath\<close> starts as \<open>path\<close> and becomes the
  first of \<open>files_\<close> that is a prefix of \<open>path\<close>.
\<close>

fun base_loop :: "string \<Rightarrow> string list \<Rightarrow> string \<Rightarrow> string" where
  "base_loop path [] basePath = basePath"
| "base_loop path (file # rest) basePath =
     (if prefix file path then file else base_loop path rest basePath)"

text \<open>
  The function given to \<open>watcher.NewWatcher\<close>: its effects in order, and the error it
  returns. \<open>filepath.Join\<close> is the parameter \<open>join\<close>.
\<close>

definition watch_handler ::
  "(string \<Rightarrow> string \<Rightarrow> string) \<Rightarrow> string list \<Rightarrow> string \<Rightarrow> string
    \<Rightarrow> effect list \<times> error option"
where
  "watch_handler join files' outputDirectory path =
     (let basePath = base_loop path files' path;
          outputPath = join outputDirectory (TrimPrefix path basePath)
      in ([LogInfo [(''path'', path)] ''File changed'',
           LogInfo [(''path'', path), (''basePath'', basePath), (''outputPath'', outputPath)]
             ''File changed''],
          None))"

section \<open>Clone, over a store\<close>

text \<open>
  Slices, maps and pointers are references, so what a clone shares with its original
  is a question about the store. A store holds the backing arrays of \<open>[]string\<close> and
  \<open>[]*Parameter\<close> slices, the \<open>map[string]string\<close> objects (their entries as an
  association list), the \<open>Parameter\<close> and \<open>Program\<close> structs that pointers point to, and
  the backing storage of list and map values held in an \<open>interface{}\<close>. A slice is the
  address of its backing array, which it spans entirely, or \<open>None\<close> for the nil
  slice; a map and a pointer are an address or \<open>None\<close> likewise. \<open>next_addr\<close> is the
  next address to allocate.
\<close>

type_synonym addr = nat

datatype val =
    VNil
  | VString string
  | VInt int
  | VBool bool
  | VList addr
  | VMap addr

type_synonym program_struct = "(addr option, addr option, addr option) Program"

record store =
  string_arrays :: "addr \<rightharpoonup> string list"
  pointer_arrays :: "addr \<rightharpoonup> addr option list"
  string_maps :: "addr \<rightharpoonup> (string \<times> string) list"
  parameter_cells :: "addr \<rightharpoonup> val Parameter"
  program_cells :: "addr \<rightharpoonup> program_struct"
  value_arrays :: "addr \<rightharpoonup> val list"
  value_maps :: "addr \<rightharpoonup> (string \<times> val) list"
  next_addr :: addr

text \<open>Reading a slice or a map through the store; nil reads as empty.\<close>

definition strings_at :: "store \<Rightarrow> addr option \<Rightarrow> string list" where
  "strings_at st sl =
     (case sl of None \<Rightarrow> [] | Some a \<Rightarrow> (case string_arrays st a of None \<Rightarrow> [] | Some xs \<Rightarrow> xs))"

definition pointers_at :: "store \<Rightarrow> addr option \<Rightarrow> addr option list" where
  "pointers_at st sl =
     (case sl of None \<Rightarrow> [] | Some a \<Rightarrow> (case pointer_arrays st a of None \<Rightarrow> [] | Some xs \<Rightarrow> xs))"

definition entries_at :: "store \<Rightarrow> addr option \<Rightarrow> (string \<times> string) list" where
  "entries_at st m =
     (case m of None \<Rightarrow> [] | Some a \<Rightarrow> (case string_maps st a of None \<Rightarrow> [] | Some es \<Rightarrow> es))"

text \<open>\<open>make([]string, n)\<close>, \<open>make([]*Parameter, n)\<close>, \<open>make(map[string]string, n)\<close>.\<close>

definition make_strings :: "store \<Rightarrow> nat \<Rightarrow> addr option \<times> store" where
  "make_strings st n =
     (Some (next_addr st),
      st\<lparr> string_arrays := (string_arrays st)(next_addr st \<mapsto> replicate n []),
          next_addr := Suc (next_addr st) \<rparr>)"

definition make_pointers :: "store \<Rightarrow> nat \<Rightarrow> addr option \<times> store" where
  "make_pointers st n =
     (Some (next_addr st),
      st\<lparr> pointer_arrays := (pointer_arrays st)(next_addr st \<mapsto> replicate n None),
          next_addr := Suc (next_addr st) \<rparr>)"

definition make_map :: "store \<Rightarrow> addr option \<times> store" where
  "make_map st =
     (Some (next_addr st),
      st\<lparr> string_maps := (string_maps st)(next_addr st \<mapsto> []),
          next_addr := Suc (next_addr st) \<rparr>)"

text \<open>\<open>copy(dst, src)\<close>: as many elements as the shorter of the two holds.\<close>

definition copy_strings :: "store \<Rightarrow> addr option \<Rightarrow> addr option \<Rightarrow> store" where
  "copy_strings st dst src =
     (case dst of
        None \<Rightarrow> st
      | Some a \<Rightarrow>
          (let n = min (length (strings_at st dst)) (length (strings_at st src)) in
           st\<lparr> string_arrays := (string_arrays st)
                 (a \<mapsto> take n (strings_at st src) @ drop n (strings_at st dst)) \<rparr>))"

text \<open>\<open>sl[i] = v\<close> on a slice of strings and on a slice of pointers; \<open>m[k] = v\<close>.\<close>

definition set_string :: "store \<Rightarrow> addr option \<Rightarrow> nat \<Rightarrow> string \<Rightarrow> error + store" where
  "set_string st sl i v =
     (if i < length (strings_at st sl)
      then Inr (st\<lparr> string_arrays := (string_arrays st)(the sl \<mapsto> (strings_at st sl)[i := v]) \<rparr>)
      else Inl IndexOutOfRange)"

definition set_pointer :: "store \<Rightarrow> addr option \<Rightarrow> nat \<Rightarrow> addr option \<Rightarrow> error + store" where
  "set_pointer st sl i v =
     (if i < length (pointers_at st sl)
      then Inr (st\<lparr> pointer_arrays := (pointer_arrays st)(the sl \<mapsto> (pointers_at st sl)[i := v]) \<rparr>)
      else Inl IndexOutOfRange)"

fun assign :: "string \<Rightarrow> string \<Rightarrow> (string \<times> string) list \<Rightarrow> (string \<times> string) list" where
  "assign k v [] = [(k, v)]"
| "assign k v ((k', v') # es) = (if k = k' then (k, v) # es else (k', v') # assign k v es)"

definition set_entry :: "store \<Rightarrow> addr option \<Rightarrow> string \<Rightarrow> string \<Rightarrow> error + store" where
  "set_entry st m k v =
     (case m of
        None \<Rightarrow> Inl NilDereference
      | Some a \<Rightarrow> Inr (st\<lparr> string_maps := (string_maps st)(a \<mapsto> assign k v (entries_at st m)) \<rparr>))"

text \<open>\<open>Parameter.Clone\<close>: a new struct, every field assigned from the receiver's.\<close>

definition Parameter_Clone :: "store \<Rightarrow> addr option \<Rightarrow> error + (addr option \<times> store)" where
  "Parameter_Clone st p =
     (case p of
        None \<Rightarrow> Inl NilDereference
      | Some a \<Rightarrow>
          (case parameter_cells st a of
             None \<Rightarrow> Inl NilDereference
           | Some x \<Rightarrow>
               Inr (Some (next_addr st),
                    st\<lparr> parameter_cells := (parameter_cells st)(next_addr st \<mapsto>
                          \<lparr> Parameter.Name = Parameter.Name x, Flag = Flag x, Short = Short x,
                            Type = Type x, Value = Value x, Raw = Raw x,
                            NoValue = NoValue x \<rparr>),
                        next_addr := Suc (next_addr st) \<rparr>)))"

text \<open>
  The loops of \<open>Program.Clone\<close>: \<open>for i, f := range ... { dst[i] = f.Clone() }\<close> over
  the elements of a slice of parameters, and \<open>for k, v := range ... { dst[k] = v }\<close>
  over the entries of a map.
\<close>

fun clone_loop :: "store \<Rightarrow> addr option list \<Rightarrow> addr option \<Rightarrow> nat \<Rightarrow> error + store" where
  "clone_loop st [] dst i = Inr st"
| "clone_loop st (f # rest) dst i =
     (case Parameter_Clone st f of
        Inl err \<Rightarrow> Inl err
      | Inr (c, st') \<Rightarrow>
          (case set_pointer st' dst i c of
             Inl err \<Rightarrow> Inl err
           | Inr st'' \<Rightarrow> clone_loop st'' rest dst (Suc i)))"

fun entries_copy_loop :: "store \<Rightarrow> (string \<times> string) list \<Rightarrow> addr option \<Rightarrow> error + store" where
  "entries_copy_loop st [] dst = Inr st"
| "entries_copy_loop st ((k, v) # rest) dst =
     (case set_entry st dst k v of
        Inl err \<Rightarrow> Inl err
      | Inr st' \<Rightarrow> entries_copy_loop st' rest dst)"

text \<open>
  \<open>Program.Clone\<close>. \<open>clone := *p\<close> copies the struct, that is every field, the
  references among them as references; the statements after it replace \<open>RawFlags\<close>,
  \<open>Flags\<close>, \<open>Args\<close>, \<open>Env\<close> and \<open>ExpectedFiles\<close>. The result is the address of the
  clone and the store afterwards.
\<close>

definition Program_Clone :: "store \<Rightarrow> addr option \<Rightarrow> error + (addr option \<times> store)" where
  "Program_Clone st0 p =
     (case p of
        None \<Rightarrow> Inl NilDereference
      | Some a \<Rightarrow>
     (case program_cells st0 a of
        None \<Rightarrow> Inl NilDereference
      | Some orig \<Rightarrow>
     (let clone = orig;
          (rawFlags, st1) = make_strings st0 (length (strings_at st0 (RawFlags orig)));
          clone = clone\<lparr> RawFlags := rawFlags \<rparr>;
          st2 = copy_strings st1 (RawFlags clone) (RawFlags orig);
          (flags, st3) = make_pointers st2 (length (pointers_at st2 (Flags orig)));
          clone = clone\<lparr> Flags := flags \<rparr>
      in case clone_loop st3 (pointers_at st3 (Flags orig)) (Flags clone) 0 of
           Inl err \<Rightarrow> Inl err
         | Inr st4 \<Rightarrow>
     (let (args, st5) = make_pointers st4 (length (pointers_at st4 (Args orig)));
          clone = clone\<lparr> Args := args \<rparr>
      in case clone_loop st5 (pointers_at st5 (Args orig)) (Args clone) 0 of
           Inl err \<Rightarrow> Inl err
         | Inr st6 \<Rightarrow>
     (let (env, st7) = make_map st6;
          clone = clone\<lparr> Env := env \<rparr>
      in case entries_copy_loop st7 (entries_at st7 (Env orig)) (Env clone) of
           Inl err \<Rightarrow> Inl err
         | Inr st8 \<Rightarrow>
     (let (expectedFiles, st9) = make_map st8;
          clone = clone\<lparr> ExpectedFiles := expectedFiles \<rparr>
      in case entries_copy_loop st9 (entries_at st9 (ExpectedFiles orig)) (ExpectedFiles clone) of
           Inl err \<Rightarrow> Inl err
         | Inr st10 \<Rightarrow>
             Inr (Some (next_addr st10),
                  st10\<lparr> program_cells := (program_cells st10)(next_addr st10 \<mapsto> clone),
                        next_addr := Suc (next_addr st10) \<rparr>)))))))"

text \<open>
  Writes a caller can make through a program: \<open>p.Verbs[i] = v\<close>, and
  \<open>p.Flags[i].Value.([]interface{})[j] = v\<close>, the update in place of a list held in a
  flag's \<open>Value\<close>.
\<close>

definition set_verb :: "store \<Rightarrow> addr option \<Rightarrow> nat \<Rightarrow> string \<Rightarrow> error + store" where
  "set_verb st p i v =
     (case p of
        None \<Rightarrow> Inl NilDereference
      | Some a \<Rightarrow>
          (case program_cells st a of
             None \<Rightarrow> Inl NilDereference
           | Some x \<Rightarrow> set_string st (Verbs x) i v))"

definition flag_at :: "store \<Rightarrow> addr option \<Rightarrow> nat \<Rightarrow> error + val Parameter" where
  "flag_at st p i =
     (case p of
        None \<Rightarrow> Inl NilDereference
      | Some a \<Rightarrow>
          (case program_cells st a of
             None \<Rightarrow> Inl NilDereference
           | Some x \<Rightarrow>
               (if i < length (pointers_at st (Flags x))
                then (case pointers_at st (Flags x) ! i of
                        None \<Rightarrow> Inl NilDereference
                      | Some f \<Rightarrow>
                          (case parameter_cells st f of
                             None \<Rightarrow> Inl NilDereference
                           | Some y \<Rightarrow> Inr y))
                else Inl IndexOutOfRange)))"

definition set_flag_value_elem ::
  "store \<Rightarrow> addr option \<Rightarrow> nat \<Rightarrow> nat \<Rightarrow> val \<Rightarrow> error + store"
where
  "set_flag_value_elem st p i j v =
     (case flag_at st p i of
        Inl err \<Rightarrow> Inl err
      | Inr f \<Rightarrow>
          (case Value f of
             VList a \<Rightarrow>
               (case value_arrays st a of
                  None \<Rightarrow> Inl NilDereference
                | Some xs \<Rightarrow>
                    (if j < length xs
                     then Inr (st\<lparr> value_arrays := (value_arrays st)(a \<mapsto> xs[j := v]) \<rparr>)
                     else Inl IndexOutOfRange))
           | _ \<Rightarrow> Inl (External ''interface conversion'')))"

text \<open>
  \<open>SetFlagValue\<close>: the first flag of the name gets the value; \<open>SetFlagValue_loop\<close> is
  its loop over \<open>p.Flags\<close>.
\<close>

fun SetFlagValue_loop :: "store \<Rightarrow> addr option list \<Rightarrow> string \<Rightarrow> val \<Rightarrow> error + store" where
  "SetFlagValue_loop st [] name v = Inl (Errorf (''could not find flag '' @ name))"
| "SetFlagValue_loop st (f # rest) name v =
     (case f of
        None \<Rightarrow> Inl NilDereference
      | Some a \<Rightarrow>
          (case parameter_cells st a of
             None \<Rightarrow> Inl NilDereference
           | Some x \<Rightarrow>
               (if Parameter.Name x = name
                then Inr (st\<lparr> parameter_cells := (parameter_cells st)(a \<mapsto> x\<lparr> Value := v \<rparr>) \<rparr>)
                else SetFlagValue_loop st rest name v)))"

definition SetFlagValue :: "store \<Rightarrow> addr option \<Rightarrow> string \<Rightarrow> val \<Rightarrow> error + store" where
  "SetFlagValue st p name v =
     (case p of
        None \<Rightarrow> Inl NilDereference
      | Some a \<Rightarrow>
          (case program_cells st a of
             None \<Rightarrow> Inl NilDereference
           | Some x \<Rightarrow> SetFlagValue_loop st (pointers_at st (Flags x)) name v))"

text \<open>
  Reads a caller can make through a program: \<open>p.Verbs\<close>, \<open>p.RawFlags\<close>, the entries of
  \<open>p.Env\<close>, and the elements of the list held in \<open>p.Flags[i].Value\<close>.
\<close>

definition program_verbs :: "store \<Rightarrow> addr option \<Rightarrow> error + string list" where
  "program_verbs st p =
     (case p of
        None \<Rightarrow> Inl NilDereference
      | Some a \<Rightarrow>
          (case program_cells st a of
             None \<Rightarrow> Inl NilDereference
           | Some x \<Rightarrow> Inr (strings_at st (Verbs x))))"

definition program_rawFlags :: "store \<Rightarrow> addr option \<Rightarrow> error + string list" where
  "program_rawFlags st p =
     (case p of
        None \<Rightarrow> Inl NilDereference
      | Some a \<Rightarrow>
          (case program_cells st a of
             None \<Rightarrow> Inl NilDereference
           | Some x \<Rightarrow> Inr (strings_at st (RawFlags x))))"

definition program_env :: "store \<Rightarrow> addr option \<Rightarrow> error + (string \<times> string) list" where
  "program_env st p =
     (case p of
        None \<Rightarrow> Inl NilDereference
      | Some a \<Rightarrow>
          (case program_cells st a of
             None \<Rightarrow> Inl NilDereference
           | Some x \<Rightarrow> Inr (entries_at st (Env x))))"

definition flag_value_list :: "store \<Rightarrow> addr option \<Rightarrow> nat \<Rightarrow> error + val list" where
  "flag_value_list st p i =
     (case flag_at st p i of
        Inl err \<Rightarrow> Inl err
      | Inr f \<Rightarrow>
          (case Value f of
             VList a \<Rightarrow> (case value_arrays st a of None \<Rightarrow> Inl NilDereference | Some xs \<Rightarrow> Inr xs)
           | _ \<Rightarrow> Inl (External ''interface conversion'')))"

section \<open>Example inputs\<close>

text \<open>
  A renderer for the examples, over values that are texts: a value is rendered as
  itself, except that type \<open>bool\<close> accepts only \<open>true\<close> and \<open>false\<close>.
\<close>

definition example_render :: "string renderer" where
  "example_render t v =
     (if t = ''bool'' \<and> v \<noteq> ''true'' \<and> v \<noteq> ''false''
      then Inl (External ''not a boolean'') else Inr v)"

text \<open>
  A program with a verb, a raw flag, three flags (one with a \<open>Flag\<close> override, one
  presence-only switch whose value does not render, one whose value resolves to the
  empty string) and two positional arguments.
\<close>

definition example_program :: "string program" where
  "example_program =
     \<lparr> Name = ''grep'', Path = ''/bin/grep'', Verbs = [''search''], Description = [],
       Env = [''LANG'' \<mapsto> ''C''], RawFlags = [''-r''],
       Flags =
         [Some \<lparr> Parameter.Name = ''count'', Flag = ''-n'', Short = [], Type = ''int'',
                 Value = ''1'', Raw = ''one'', NoValue = False \<rparr>,
          Some \<lparr> Parameter.Name = ''verbose'', Flag = [], Short = [], Type = ''bool'',
                 Value = ''maybe'', Raw = [], NoValue = True \<rparr>,
          Some \<lparr> Parameter.Name = ''msg'', Flag = [], Short = [], Type = ''string'',
                 Value = [], Raw = [], NoValue = False \<rparr>],
       Args =
         [Some \<lparr> Parameter.Name = ''pattern'', Flag = [], Short = [], Type = ''string'',
                 Value = ''default'', Raw = ''raw'', NoValue = False \<rparr>,
          Some \<lparr> Parameter.Name = ''file'', Flag = [], Short = [], Type = ''string'',
                 Value = ''default.txt'', Raw = [], NoValue = False \<rparr>],
       Stdin = [], ExpectedStdout = [], ExpectedError = [], ExpectedStatusCode = 0,
       ExpectedFiles = Map.empty \<rparr>"

text \<open>
  Runtime values: one for \<open>count\<close>, one for \<open>file\<close> that renders to the empty string,
  one for the switch \<open>verbose\<close> that would not render.
\<close>

definition example_values :: "string \<rightharpoonup> string" where
  "example_values = [''count'' \<mapsto> ''5'', ''file'' \<mapsto> [], ''verbose'' \<mapsto> ''maybe'']"



text \<open>
  A stand-in for \<open>filepath.Join\<close> that agrees with it on the clean relative paths of
  the examples: one separator between the two parts, none doubled, and no leading
  \<open>.\<close> directory.
\<close>

definition example_join :: "string \<Rightarrow> string \<Rightarrow> string" where
  "example_join a b =
     (let b' = dropWhile (\<lambda>c. c = CHR ''/'') b in
      if a = ''.'' \<or> a = [] then b' else if b' = [] then a else a @ ''/'' @ b')"

text \<open>
  A decoder for the examples: a file holds the name of its program; an empty file
  does not decode.
\<close>

definition example_decode :: "string \<Rightarrow> error + string program" where
  "example_decode s =
     (if s = [] then Inl (External ''EOF'') else Inr (example_program\<lparr> Program.Name := s \<rparr>))"

text \<open>
  Three repositories. \<open>repoA\<close> holds \<open>foo.yaml\<close>, a hidden directory with a definition
  file in it, a file that is not a definition and cannot be opened, and a
  subdirectory with \<open>bar.yml\<close>. \<open>repoB\<close> defines \<open>foo\<close> again. \<open>repoC\<close> defines \<open>baz\<close>
  in two files. No other path exists.
\<close>

definition example_repoA :: fsnode where
  "example_repoA =
     Dir [(''foo.yaml'', File ''foo''),
          (''.git'', Dir [(''config.yaml'', File [])]),
          (''README.md'', BadFile (External ''permission denied'')),
          (''sub'', Dir [(''bar.yml'', File ''bar''), (''.hidden.yaml'', File ''foo'')])]"

definition example_stat :: "string \<Rightarrow> error + fsnode" where
  "example_stat path =
     (if path = ''repoA'' then Inr example_repoA
      else if path = ''repoB'' then Inr (Dir [(''again.yml'', File ''foo'')])
      else if path = ''repoC'' then
        Inr (Dir [(''one.yaml'', File ''baz''), (''two.yaml'', File ''baz'')])
      else Inl (External ''no such file or directory''))"

text \<open>
  A store for the examples. At address 0 a program with one verb (backing array at
  1), one raw flag (at 2), one flag (slice at 3, the parameter at 4) whose value is a
  list (at 6), and an environment (at 5); no arguments, no expected files.
\<close>

definition example_store :: store where
  "example_store =
     \<lparr> string_arrays = [1 \<mapsto> [''search''], 2 \<mapsto> [''-r'']],
       pointer_arrays = [3 \<mapsto> [Some 4]],
       string_maps = [5 \<mapsto> [(''LANG'', ''C'')]],
       parameter_cells =
         [4 \<mapsto> \<lparr> Parameter.Name = ''include'', Flag = [], Short = [], Type = ''stringList'',
                   Value = VList 6, Raw = [], NoValue = False \<rparr>],
       program_cells =
         [0 \<mapsto> \<lparr> Name = ''grep'', Path = ''/bin/grep'', Verbs = Some 1, Description = [],
                   Env = Some 5, RawFlags = Some 2, Flags = Some 3, Args = None, Stdin = [],
                   ExpectedStdout = [], ExpectedError = [], ExpectedStatusCode = 0,
                   ExpectedFiles = None \<rparr>],
       value_arrays = [6 \<mapsto> [VString ''*.go'']],
       value_maps = Map.empty,
       next_addr = 7 \<rparr>"


definition example_render_unstable :: "(nat, string) world_renderer" where
  "example_render_unstable w t v =
     ((if t = ''keyValue'' then Inr (if even w then ''a:1,b:2'' else ''b:2,a:1'') else Inr v),
      Suc w)"

section \<open>ComputeArgs: what it returns\<close>

lemma flags_loop_Some:
  "flags_loop rv ps (Some f # rest) acc =
     (if NoValue f then flags_loop rv ps rest (acc @ [spec_token f])
      else case spec_resolve rv ps f of
             Inl e \<Rightarrow> Inl (Wrapf e (''could not render flag '' @ Parameter.Name f))
           | Inr s \<Rightarrow> flags_loop rv ps rest (acc @ [spec_token f, s]))"
  by (simp add: spec_token_def spec_resolve_def split: sum.splits option.splits)

lemma args_loop_Some:
  "args_loop rv ps (Some a # rest) acc =
     (case spec_resolve rv ps a of
        Inl e \<Rightarrow> Inl (Wrapf e (''could not render arg '' @ Parameter.Name a))
      | Inr s \<Rightarrow> args_loop rv ps rest (acc @ [s]))"
  by (simp add: spec_resolve_def split: sum.splits option.splits)

lemma flags_loop_Inr_iff:
  "flags_loop rv ps fl acc = Inr out \<longleftrightarrow>
     (\<exists>fs. fl = map Some fs
        \<and> (\<forall>f \<in> set fs. \<not> NoValue f \<longrightarrow> (\<exists>s. spec_resolve rv ps f = Inr s))
        \<and> out = acc @ concat (map (flag_tokens rv ps) fs))"
proof (induction fl arbitrary: acc)
  case Nil
  then show ?case by auto
next
  case (Cons a fl)
  show ?case
  proof (cases a)
    case None
    then show ?thesis by auto
  next
    case (Some f)
    show ?thesis
    proof (cases "NoValue f")
      case True
      then show ?thesis
        unfolding Some flags_loop_Some
        by (auto simp: Cons.IH flag_tokens_def Cons_eq_map_conv)
    next
      case False
      show ?thesis
      proof (cases "spec_resolve rv ps f")
        case (Inl e)
        then show ?thesis
          unfolding Some flags_loop_Some using False
          by (auto simp: Cons_eq_map_conv)
      next
        case (Inr s)
        then show ?thesis
          unfolding Some flags_loop_Some using False
          by (auto simp: Cons.IH flag_tokens_def Cons_eq_map_conv)
      qed
    qed
  qed
qed

lemma args_loop_Inr_iff:
  "args_loop rv ps al acc = Inr out \<longleftrightarrow>
     (\<exists>as. al = map Some as
        \<and> (\<forall>a \<in> set as. \<exists>s. spec_resolve rv ps a = Inr s)
        \<and> out = acc @ map (\<lambda>a. projr (spec_resolve rv ps a)) as)"
proof (induction al arbitrary: acc)
  case Nil
  then show ?case by auto
next
  case (Cons a al)
  show ?case
  proof (cases a)
    case None
    then show ?thesis by auto
  next
    case (Some x)
    show ?thesis
    proof (cases "spec_resolve rv ps x")
      case (Inl e)
      then show ?thesis
        unfolding Some args_loop_Some by (auto simp: Cons_eq_map_conv)
    next
      case (Inr s)
      then show ?thesis
        unfolding Some args_loop_Some by (auto simp: Cons.IH Cons_eq_map_conv)
    qed
  qed
qed

lemma ComputeArgs_Inr_iff:
  "ComputeArgs rv p ps = Inr out \<longleftrightarrow>
     (\<exists>fs as. Flags p = map Some fs \<and> Args p = map Some as
        \<and> (\<forall>f \<in> set fs. \<not> NoValue f \<longrightarrow> (\<exists>s. spec_resolve rv ps f = Inr s))
        \<and> (\<forall>a \<in> set as. \<exists>s. spec_resolve rv ps a = Inr s)
        \<and> out = Verbs p @ RawFlags p @ concat (map (flag_tokens rv ps) fs)
                  @ map (\<lambda>a. projr (spec_resolve rv ps a)) as)"
proof (cases "flags_loop rv ps (Flags p) (([] @ Verbs p) @ RawFlags p)")
  case (Inl e)
  then show ?thesis
    using flags_loop_Inr_iff [of rv ps "Flags p" "([] @ Verbs p) @ RawFlags p"]
    by (auto simp: ComputeArgs_def)
next
  case (Inr mid)
  then show ?thesis
    using flags_loop_Inr_iff [of rv ps "Flags p" "([] @ Verbs p) @ RawFlags p" mid]
    by (auto simp: ComputeArgs_def args_loop_Inr_iff)
qed

lemma example_computed:
  "ComputeArgs example_render example_program example_values =
     Inr [''search'', ''-r'', ''-n'', ''5'', ''--verbose'', ''--msg'', [], ''raw'',
          ''default.txt'']"
  by (simp add: ComputeArgs_def example_render_def example_program_def example_values_def)

lemma ComputeArgs_tokens:
  assumes "ComputeArgs rv p ps = Inr out"
  shows "\<exists>fts ats. out = Verbs p @ RawFlags p @ concat fts @ ats \<and>
     list_all2 (\<lambda>f ts. \<exists>x. f = Some x \<and>
        (if NoValue x then ts = [spec_token x]
         else \<exists>v. ts = [spec_token x, v] \<and> spec_resolve rv ps x = Inr v)) (Flags p) fts \<and>
     list_all2 (\<lambda>a t. \<exists>x. a = Some x \<and> spec_resolve rv ps x = Inr t) (Args p) ats"
proof -
  from assms obtain fs as where
    fl: "Flags p = map Some fs" and ar: "Args p = map Some as" and
    fok: "\<forall>f \<in> set fs. \<not> NoValue f \<longrightarrow> (\<exists>s. spec_resolve rv ps f = Inr s)" and
    aok: "\<forall>a \<in> set as. \<exists>s. spec_resolve rv ps a = Inr s" and
    out: "out = Verbs p @ RawFlags p @ concat (map (flag_tokens rv ps) fs)
                  @ map (\<lambda>a. projr (spec_resolve rv ps a)) as"
    unfolding ComputeArgs_Inr_iff by blast
  have "list_all2 (\<lambda>f ts. \<exists>x. f = Some x \<and>
        (if NoValue x then ts = [spec_token x]
         else \<exists>v. ts = [spec_token x, v] \<and> spec_resolve rv ps x = Inr v))
        (map Some fs) (map (flag_tokens rv ps) fs)"
    using fok by (auto simp: list_all2_map1 list_all2_map2 flag_tokens_def intro!: list_all2_same [THEN iffD2])
  moreover have "list_all2 (\<lambda>a t. \<exists>x. a = Some x \<and> spec_resolve rv ps x = Inr t)
        (map Some as) (map (\<lambda>a. projr (spec_resolve rv ps a)) as)"
    using aok by (auto simp: list_all2_map1 list_all2_map2 intro!: list_all2_same [THEN iffD2])
  ultimately show ?thesis
    unfolding fl ar out by (intro exI conjI) (rule refl, assumption+)
qed

lemma list_all2_Some_map:
  assumes "list_all2 (\<lambda>f y. \<exists>x. f = Some x \<and> Q x y) fl ys"
  shows "\<exists>fs. fl = map Some fs \<and> list_all2 Q fs ys"
  using assms
proof (induction fl ys rule: list_all2_induct)
  case Nil
  then show ?case by simp
next
  case (Cons f fl y ys)
  then obtain x fs where "f = Some x" "Q x y" "fl = map Some fs" "list_all2 Q fs ys"
    by blast
  then have "f # fl = map Some (x # fs) \<and> list_all2 Q (x # fs) (y # ys)"
    by simp
  then show ?case by (rule exI)
qed

lemma list_all2_eq_map:
  "list_all2 (\<lambda>x y. y = g x) xs ys \<Longrightarrow> ys = map g xs"
  by (induction xs ys rule: list_all2_induct) simp_all

lemma ComputeArgs_tokens_conv:
  assumes "out = Verbs p @ RawFlags p @ concat fts @ ats"
    and fl: "list_all2 (\<lambda>f ts. \<exists>x. f = Some x \<and>
        (if NoValue x then ts = [spec_token x]
         else \<exists>v. ts = [spec_token x, v] \<and> spec_resolve rv ps x = Inr v)) (Flags p) fts"
    and ar: "list_all2 (\<lambda>a t. \<exists>x. a = Some x \<and> spec_resolve rv ps x = Inr t) (Args p) ats"
  shows "ComputeArgs rv p ps = Inr out"
proof -
  from list_all2_Some_map [OF fl] obtain fs where
    fs: "Flags p = map Some fs" and
    f2: "list_all2 (\<lambda>x ts. if NoValue x then ts = [spec_token x]
         else \<exists>v. ts = [spec_token x, v] \<and> spec_resolve rv ps x = Inr v) fs fts"
    by blast
  from list_all2_Some_map [OF ar] obtain as where
    as: "Args p = map Some as" and
    a2: "list_all2 (\<lambda>x t. spec_resolve rv ps x = Inr t) as ats"
    by blast
  have "list_all2 (\<lambda>x ts. ts = flag_tokens rv ps x) fs fts"
    by (rule list_all2_mono [OF f2]) (auto simp: flag_tokens_def split: if_splits)
  then have fts: "fts = map (flag_tokens rv ps) fs"
    by (rule list_all2_eq_map)
  have "list_all2 (\<lambda>x t. t = projr (spec_resolve rv ps x)) as ats"
    by (rule list_all2_mono [OF a2]) simp
  then have ats: "ats = map (\<lambda>a. projr (spec_resolve rv ps a)) as"
    by (rule list_all2_eq_map)
  have fok: "\<forall>f \<in> set fs. \<not> NoValue f \<longrightarrow> (\<exists>s. spec_resolve rv ps f = Inr s)"
  proof
    fix f assume "f \<in> set fs"
    then obtain i where "i < length fs" "fs ! i = f" by (auto simp: in_set_conv_nth)
    with f2 have "if NoValue f then fts ! i = [spec_token f]
         else \<exists>v. fts ! i = [spec_token f, v] \<and> spec_resolve rv ps f = Inr v"
      by (auto dest: list_all2_nthD)
    then show "\<not> NoValue f \<longrightarrow> (\<exists>s. spec_resolve rv ps f = Inr s)"
      by (auto split: if_splits)
  qed
  have aok: "\<forall>a \<in> set as. \<exists>s. spec_resolve rv ps a = Inr s"
  proof
    fix a assume "a \<in> set as"
    then obtain i where "i < length as" "as ! i = a" by (auto simp: in_set_conv_nth)
    with a2 have "spec_resolve rv ps a = Inr (ats ! i)"
      by (auto dest: list_all2_nthD)
    then show "\<exists>s. spec_resolve rv ps a = Inr s" by blast
  qed
  show ?thesis
    unfolding ComputeArgs_Inr_iff
    using fs as fok aok assms(1) fts ats by blast
qed

text \<open>
  C1. For every program and runtime value map, the value token of each flag without
  \<open>NoValue\<close> and the token of each positional argument in the vector \<open>ComputeArgs\<close>
  returns is the result of the precedence chain \<open>spec_resolve\<close>: the runtime entry
  keyed by the parameter's \<open>Name\<close>, rendered for its \<open>Type\<close>, if there is one; else
  \<open>Raw\<close>; and if that text is empty, the rendering of the static \<open>Value\<close> instead, so
  that a runtime value that renders to the empty string is overridden by the default.
\<close>

theorem ComputeArgs_value_precedence:
  assumes "ComputeArgs rv p ps = Inr out"
  shows "\<exists>fs as vs ws.
     Flags p = map Some fs \<and> Args p = map Some as \<and>
     out = Verbs p @ RawFlags p
           @ concat (map2 (\<lambda>f v. if NoValue f then [spec_token f] else [spec_token f, v]) fs vs)
           @ ws \<and>
     list_all2 (\<lambda>f v. \<not> NoValue f \<longrightarrow> spec_resolve rv ps f = Inr v) fs vs \<and>
     list_all2 (\<lambda>a w. spec_resolve rv ps a = Inr w) as ws"
proof -
  from assms obtain fs as where
    fl: "Flags p = map Some fs" and ar: "Args p = map Some as" and
    fok: "\<forall>f \<in> set fs. \<not> NoValue f \<longrightarrow> (\<exists>s. spec_resolve rv ps f = Inr s)" and
    aok: "\<forall>a \<in> set as. \<exists>s. spec_resolve rv ps a = Inr s" and
    out: "out = Verbs p @ RawFlags p @ concat (map (flag_tokens rv ps) fs)
                  @ map (\<lambda>a. projr (spec_resolve rv ps a)) as"
    unfolding ComputeArgs_Inr_iff by blast
  define vs where "vs = map (\<lambda>f. projr (spec_resolve rv ps f)) fs"
  define ws where "ws = map (\<lambda>a. projr (spec_resolve rv ps a)) as"
  have "map2 (\<lambda>f v. if NoValue f then [spec_token f] else [spec_token f, v]) fs vs
          = map (flag_tokens rv ps) fs"
    unfolding vs_def by (induction fs) (simp_all add: flag_tokens_def)
  moreover have "list_all2 (\<lambda>f v. \<not> NoValue f \<longrightarrow> spec_resolve rv ps f = Inr v) fs vs"
    unfolding vs_def using fok by (auto simp: list_all2_map2 intro!: list_all2_same [THEN iffD2])
  moreover have "list_all2 (\<lambda>a w. spec_resolve rv ps a = Inr w) as ws"
    unfolding ws_def using aok by (auto simp: list_all2_map2 intro!: list_all2_same [THEN iffD2])
  ultimately have "Flags p = map Some fs \<and> Args p = map Some as \<and>
     out = Verbs p @ RawFlags p
           @ concat (map2 (\<lambda>f v. if NoValue f then [spec_token f] else [spec_token f, v]) fs vs)
           @ ws \<and>
     list_all2 (\<lambda>f v. \<not> NoValue f \<longrightarrow> spec_resolve rv ps f = Inr v) fs vs \<and>
     list_all2 (\<lambda>a w. spec_resolve rv ps a = Inr w) as ws"
    using fl ar out by (simp add: ws_def)
  then show ?thesis by blast
qed

theorem ComputeArgs_value_precedence_witness:
  "ComputeArgs example_render example_program example_values =
     Inr [''search'', ''-r'', ''-n'', ''5'', ''--verbose'', ''--msg'', [], ''raw'',
          ''default.txt'']
   \<and> (\<exists>fs as vs ws.
     Flags example_program = map Some fs \<and> Args example_program = map Some as \<and>
     [''search'', ''-r'', ''-n'', ''5'', ''--verbose'', ''--msg'', [], ''raw'', ''default.txt'']
       = Verbs example_program @ RawFlags example_program
           @ concat (map2 (\<lambda>f v. if NoValue f then [spec_token f] else [spec_token f, v]) fs vs)
           @ ws \<and>
     list_all2 (\<lambda>f v. \<not> NoValue f \<longrightarrow>
        spec_resolve example_render example_values f = Inr v) fs vs \<and>
     list_all2 (\<lambda>a w. spec_resolve example_render example_values a = Inr w) as ws)"
  by (rule conjI [OF example_computed ComputeArgs_value_precedence [OF example_computed]])

text \<open>
  C4. For every program and runtime value map, the vector \<open>ComputeArgs\<close> returns is,
  in this order: the \<open>Verbs\<close> as they are, the \<open>RawFlags\<close> as they are, the tokens of
  each entry of \<open>Flags\<close> in declared order, one token for each entry of \<open>Args\<close> in
  declared order. \<open>ComputeArgs\<close> returns this vector whenever the value of every flag
  without \<open>NoValue\<close> and of every argument resolves, and returns no other.
\<close>

theorem ComputeArgs_order:
  "ComputeArgs rv p ps = Inr out \<longleftrightarrow>
     (\<exists>fts ats. out = Verbs p @ RawFlags p @ concat fts @ ats \<and>
        list_all2 (\<lambda>f ts. \<exists>x. f = Some x \<and> ts = flag_tokens rv ps x \<and>
           (NoValue x \<or> (\<exists>s. spec_resolve rv ps x = Inr s))) (Flags p) fts \<and>
        list_all2 (\<lambda>a t. \<exists>x. a = Some x \<and> spec_resolve rv ps x = Inr t) (Args p) ats)"
proof
  assume "ComputeArgs rv p ps = Inr out"
  from ComputeArgs_tokens [OF this] obtain fts ats where
    out: "out = Verbs p @ RawFlags p @ concat fts @ ats" and
    fl: "list_all2 (\<lambda>f ts. \<exists>x. f = Some x \<and>
        (if NoValue x then ts = [spec_token x]
         else \<exists>v. ts = [spec_token x, v] \<and> spec_resolve rv ps x = Inr v)) (Flags p) fts" and
    ar: "list_all2 (\<lambda>a t. \<exists>x. a = Some x \<and> spec_resolve rv ps x = Inr t) (Args p) ats"
    by blast
  have "list_all2 (\<lambda>f ts. \<exists>x. f = Some x \<and> ts = flag_tokens rv ps x \<and>
           (NoValue x \<or> (\<exists>s. spec_resolve rv ps x = Inr s))) (Flags p) fts"
  proof (rule list_all2_mono [OF fl])
    fix f ts
    assume "\<exists>x. f = Some x \<and>
        (if NoValue x then ts = [spec_token x]
         else \<exists>v. ts = [spec_token x, v] \<and> spec_resolve rv ps x = Inr v)"
    then obtain x where x: "f = Some x" and
      ts: "if NoValue x then ts = [spec_token x]
           else \<exists>v. ts = [spec_token x, v] \<and> spec_resolve rv ps x = Inr v"
      by blast
    from ts have "ts = flag_tokens rv ps x \<and> (NoValue x \<or> (\<exists>s. spec_resolve rv ps x = Inr s))"
      by (cases "NoValue x") (auto simp: flag_tokens_def)
    with x show "\<exists>x. f = Some x \<and> ts = flag_tokens rv ps x \<and>
           (NoValue x \<or> (\<exists>s. spec_resolve rv ps x = Inr s))"
      by simp
  qed
  with out ar show "\<exists>fts ats. out = Verbs p @ RawFlags p @ concat fts @ ats \<and>
        list_all2 (\<lambda>f ts. \<exists>x. f = Some x \<and> ts = flag_tokens rv ps x \<and>
           (NoValue x \<or> (\<exists>s. spec_resolve rv ps x = Inr s))) (Flags p) fts \<and>
        list_all2 (\<lambda>a t. \<exists>x. a = Some x \<and> spec_resolve rv ps x = Inr t) (Args p) ats"
    by (intro exI conjI) assumption+
next
  assume "\<exists>fts ats. out = Verbs p @ RawFlags p @ concat fts @ ats \<and>
        list_all2 (\<lambda>f ts. \<exists>x. f = Some x \<and> ts = flag_tokens rv ps x \<and>
           (NoValue x \<or> (\<exists>s. spec_resolve rv ps x = Inr s))) (Flags p) fts \<and>
        list_all2 (\<lambda>a t. \<exists>x. a = Some x \<and> spec_resolve rv ps x = Inr t) (Args p) ats"
  then obtain fts ats where
    out: "out = Verbs p @ RawFlags p @ concat fts @ ats" and
    fl: "list_all2 (\<lambda>f ts. \<exists>x. f = Some x \<and> ts = flag_tokens rv ps x \<and>
           (NoValue x \<or> (\<exists>s. spec_resolve rv ps x = Inr s))) (Flags p) fts" and
    ar: "list_all2 (\<lambda>a t. \<exists>x. a = Some x \<and> spec_resolve rv ps x = Inr t) (Args p) ats"
    by blast
  have "list_all2 (\<lambda>f ts. \<exists>x. f = Some x \<and>
        (if NoValue x then ts = [spec_token x]
         else \<exists>v. ts = [spec_token x, v] \<and> spec_resolve rv ps x = Inr v)) (Flags p) fts"
  proof (rule list_all2_mono [OF fl])
    fix f ts
    assume "\<exists>x. f = Some x \<and> ts = flag_tokens rv ps x \<and>
           (NoValue x \<or> (\<exists>s. spec_resolve rv ps x = Inr s))"
    then obtain x where x: "f = Some x" and ts: "ts = flag_tokens rv ps x" and
      ok: "NoValue x \<or> (\<exists>s. spec_resolve rv ps x = Inr s)"
      by blast
    from ts ok have "if NoValue x then ts = [spec_token x]
         else \<exists>v. ts = [spec_token x, v] \<and> spec_resolve rv ps x = Inr v"
      by (cases "NoValue x") (auto simp: flag_tokens_def)
    with x show "\<exists>x. f = Some x \<and>
        (if NoValue x then ts = [spec_token x]
         else \<exists>v. ts = [spec_token x, v] \<and> spec_resolve rv ps x = Inr v)"
      by simp
  qed
  with out show "ComputeArgs rv p ps = Inr out"
    using ar by (rule ComputeArgs_tokens_conv)
qed

lemma example_resolves:
  "spec_resolve example_render example_values
     \<lparr> Parameter.Name = ''count'', Flag = ''-n'', Short = [], Type = ''int'', Value = ''1'',
       Raw = ''one'', NoValue = False \<rparr> = Inr ''5''"
  "spec_resolve example_render example_values
     \<lparr> Parameter.Name = ''msg'', Flag = [], Short = [], Type = ''string'', Value = [],
       Raw = [], NoValue = False \<rparr> = Inr []"
  "spec_resolve example_render example_values
     \<lparr> Parameter.Name = ''pattern'', Flag = [], Short = [], Type = ''string'',
       Value = ''default'', Raw = ''raw'', NoValue = False \<rparr> = Inr ''raw''"
  "spec_resolve example_render example_values
     \<lparr> Parameter.Name = ''file'', Flag = [], Short = [], Type = ''string'',
       Value = ''default.txt'', Raw = [], NoValue = False \<rparr> = Inr ''default.txt''"
  by (simp_all add: spec_resolve_def example_render_def example_values_def)

theorem ComputeArgs_order_witness:
  "ComputeArgs example_render example_program example_values =
     Inr [''search'', ''-r'', ''-n'', ''5'', ''--verbose'', ''--msg'', [], ''raw'',
          ''default.txt'']"
proof (rule ComputeArgs_order [THEN iffD2])
  have "[''search'', ''-r'', ''-n'', ''5'', ''--verbose'', ''--msg'', [], ''raw'', ''default.txt'']
          = Verbs example_program @ RawFlags example_program
            @ concat [[''-n'', ''5''], [''--verbose''], [''--msg'', []]] @ [''raw'', ''default.txt''] \<and>
        list_all2 (\<lambda>f ts. \<exists>x. f = Some x \<and> ts = flag_tokens example_render example_values x \<and>
           (NoValue x \<or> (\<exists>s. spec_resolve example_render example_values x = Inr s)))
          (Flags example_program) [[''-n'', ''5''], [''--verbose''], [''--msg'', []]] \<and>
        list_all2 (\<lambda>a t. \<exists>x. a = Some x \<and> spec_resolve example_render example_values x = Inr t)
          (Args example_program) [''raw'', ''default.txt'']"
    by (simp add: example_program_def flag_tokens_def spec_token_def example_resolves)
  then show "\<exists>fts ats.
        [''search'', ''-r'', ''-n'', ''5'', ''--verbose'', ''--msg'', [], ''raw'', ''default.txt'']
          = Verbs example_program @ RawFlags example_program @ concat fts @ ats \<and>
        list_all2 (\<lambda>f ts. \<exists>x. f = Some x \<and> ts = flag_tokens example_render example_values x \<and>
           (NoValue x \<or> (\<exists>s. spec_resolve example_render example_values x = Inr s)))
          (Flags example_program) fts \<and>
        list_all2 (\<lambda>a t. \<exists>x. a = Some x \<and> spec_resolve example_render example_values x = Inr t)
          (Args example_program) ats"
    by (intro exI)
qed

text \<open>
  C5. For every entry of \<open>Flags\<close>, \<open>ComputeArgs\<close> emits as its token the \<open>Flag\<close> field
  if set, else \<open>"--" + Name\<close>. A flag with \<open>NoValue\<close> contributes that one token and
  nothing else, and its value is not resolved: whether \<open>ComputeArgs\<close> returns a vector
  depends on the resolution of the other flags and of the arguments only. A flag
  without \<open>NoValue\<close> contributes two tokens, the flag token and then the resolved
  value, whatever that value is (the empty string too).
\<close>

theorem ComputeArgs_flag_tokens:
  "ComputeArgs rv p ps = Inr out \<longleftrightarrow>
     (\<exists>fts ats. out = Verbs p @ RawFlags p @ concat fts @ ats \<and>
        list_all2 (\<lambda>f ts. \<exists>x. f = Some x \<and>
           (let token = (if Flag x \<noteq> [] then Flag x else ''--'' @ Parameter.Name x) in
            if NoValue x then ts = [token]
            else \<exists>v. ts = [token, v] \<and> spec_resolve rv ps x = Inr v)) (Flags p) fts \<and>
        list_all2 (\<lambda>a t. \<exists>x. a = Some x \<and> spec_resolve rv ps x = Inr t) (Args p) ats)"
proof
  assume "ComputeArgs rv p ps = Inr out"
  from ComputeArgs_tokens [OF this]
  show "\<exists>fts ats. out = Verbs p @ RawFlags p @ concat fts @ ats \<and>
        list_all2 (\<lambda>f ts. \<exists>x. f = Some x \<and>
           (let token = (if Flag x \<noteq> [] then Flag x else ''--'' @ Parameter.Name x) in
            if NoValue x then ts = [token]
            else \<exists>v. ts = [token, v] \<and> spec_resolve rv ps x = Inr v)) (Flags p) fts \<and>
        list_all2 (\<lambda>a t. \<exists>x. a = Some x \<and> spec_resolve rv ps x = Inr t) (Args p) ats"
    unfolding spec_token_def Let_def .
next
  assume "\<exists>fts ats. out = Verbs p @ RawFlags p @ concat fts @ ats \<and>
        list_all2 (\<lambda>f ts. \<exists>x. f = Some x \<and>
           (let token = (if Flag x \<noteq> [] then Flag x else ''--'' @ Parameter.Name x) in
            if NoValue x then ts = [token]
            else \<exists>v. ts = [token, v] \<and> spec_resolve rv ps x = Inr v)) (Flags p) fts \<and>
        list_all2 (\<lambda>a t. \<exists>x. a = Some x \<and> spec_resolve rv ps x = Inr t) (Args p) ats"
  then obtain fts ats where
    out: "out = Verbs p @ RawFlags p @ concat fts @ ats" and
    fl: "list_all2 (\<lambda>f ts. \<exists>x. f = Some x \<and>
           (if NoValue x then ts = [spec_token x]
            else \<exists>v. ts = [spec_token x, v] \<and> spec_resolve rv ps x = Inr v)) (Flags p) fts" and
    ar: "list_all2 (\<lambda>a t. \<exists>x. a = Some x \<and> spec_resolve rv ps x = Inr t) (Args p) ats"
    unfolding spec_token_def Let_def by blast
  then show "ComputeArgs rv p ps = Inr out"
    by (rule ComputeArgs_tokens_conv)
qed

theorem ComputeArgs_flag_tokens_witness:
  "\<exists>fts ats.
     [''search'', ''-r'', ''-n'', ''5'', ''--verbose'', ''--msg'', [], ''raw'', ''default.txt'']
       = Verbs example_program @ RawFlags example_program @ concat fts @ ats \<and>
     list_all2 (\<lambda>f ts. \<exists>x. f = Some x \<and>
        (let token = (if Flag x \<noteq> [] then Flag x else ''--'' @ Parameter.Name x) in
         if NoValue x then ts = [token]
         else \<exists>v. ts = [token, v] \<and> spec_resolve example_render example_values x = Inr v))
       (Flags example_program) fts \<and>
     list_all2 (\<lambda>a t. \<exists>x. a = Some x \<and> spec_resolve example_render example_values x = Inr t)
       (Args example_program) ats"
  by (rule ComputeArgs_flag_tokens [THEN iffD1, OF example_computed])

section \<open>ComputeArgs: what it depends on\<close>

lemma spec_resolve_agree:
  "ps (Parameter.Name x) = ps' (Parameter.Name x) \<Longrightarrow> spec_resolve rv ps x = spec_resolve rv ps' x"
  by (simp add: spec_resolve_def)

lemma flags_loop_agree:
  assumes "\<forall>f \<in> set fl. \<forall>x. f = Some x \<longrightarrow> \<not> NoValue x \<longrightarrow>
             ps (Parameter.Name x) = ps' (Parameter.Name x)"
  shows "flags_loop rv ps fl acc = flags_loop rv ps' fl acc"
  using assms
proof (induction fl arbitrary: acc)
  case Nil
  show ?case by simp
next
  case (Cons a fl)
  then have IH: "\<And>acc. flags_loop rv ps fl acc = flags_loop rv ps' fl acc" by simp
  show ?case
  proof (cases a)
    case None
    then show ?thesis by simp
  next
    case (Some f)
    show ?thesis
    proof (cases "NoValue f")
      case True
      then show ?thesis unfolding Some flags_loop_Some by (simp add: IH)
    next
      case False
      with Cons.prems Some have "spec_resolve rv ps f = spec_resolve rv ps' f"
        by (intro spec_resolve_agree) simp
      then show ?thesis unfolding Some flags_loop_Some by (simp add: IH split: sum.splits)
    qed
  qed
qed

lemma args_loop_agree:
  assumes "\<forall>a \<in> set al. \<forall>x. a = Some x \<longrightarrow> ps (Parameter.Name x) = ps' (Parameter.Name x)"
  shows "args_loop rv ps al acc = args_loop rv ps' al acc"
  using assms
proof (induction al arbitrary: acc)
  case Nil
  show ?case by simp
next
  case (Cons a al)
  then have IH: "\<And>acc. args_loop rv ps al acc = args_loop rv ps' al acc" by simp
  show ?case
  proof (cases a)
    case None
    then show ?thesis by simp
  next
    case (Some x)
    with Cons.prems have "spec_resolve rv ps x = spec_resolve rv ps' x"
      by (intro spec_resolve_agree) simp
    then show ?thesis unfolding Some args_loop_Some by (simp add: IH split: sum.splits)
  qed
qed

text \<open>
  The result of \<open>ComputeArgs\<close>, the vector or the error, is determined by what it
  reads of its two inputs: \<open>Verbs\<close>, \<open>RawFlags\<close>, \<open>Flags\<close> and \<open>Args\<close> of the program
  and the runtime values under the names of the flags without \<open>NoValue\<close> and of the
  arguments.
\<close>

lemma ComputeArgs_reads:
  assumes "Verbs p = Verbs p'" and "RawFlags p = RawFlags p'"
    and "Flags p = Flags p'" and "Args p = Args p'"
    and "\<forall>f \<in> set (Flags p). \<forall>x. f = Some x \<longrightarrow> \<not> NoValue x \<longrightarrow>
           ps (Parameter.Name x) = ps' (Parameter.Name x)"
    and "\<forall>a \<in> set (Args p). \<forall>x. a = Some x \<longrightarrow> ps (Parameter.Name x) = ps' (Parameter.Name x)"
  shows "ComputeArgs rv p ps = ComputeArgs rv p' ps'"
proof -
  have "flags_loop rv ps (Flags p) (([] @ Verbs p) @ RawFlags p)
          = flags_loop rv ps' (Flags p') (([] @ Verbs p') @ RawFlags p')"
    using assms(1-3) flags_loop_agree [OF assms(5)] by simp
  moreover have "\<And>acc. args_loop rv ps (Args p) acc = args_loop rv ps' (Args p') acc"
    using assms(4) args_loop_agree [OF assms(6)] by simp
  ultimately show ?thesis by (simp add: ComputeArgs_def split: sum.splits)
qed

section \<open>ComputeArgs: two calls\<close>

text \<open>
  With a renderer whose result does not depend on the world, the result of the
  loops in any world is that of the loops above with the renderer read in one fixed
  world \<open>w0\<close>.
\<close>

lemma flags_loop_in_result:
  assumes "\<forall>t v w w'. fst (rv w t v) = fst (rv w' t v)"
  shows "fst (flags_loop_in rv ps fl acc w) = flags_loop (\<lambda>t v. fst (rv w0 t v)) ps fl acc"
proof (induction fl arbitrary: acc w)
  case Nil
  show ?case by simp
next
  case (Cons a fl)
  have r: "\<And>w t v. fst (rv w t v) = fst (rv w0 t v)"
    using assms by blast
  show ?case
  proof (cases a)
    case None
    then show ?thesis by simp
  next
    case (Some f)
    show ?thesis
    proof (cases "NoValue f")
      case True
      with Some show ?thesis by (simp add: Cons.IH)
    next
      case False
      show ?thesis
      proof (cases "ps (Parameter.Name f)")
        case None
        note nops = this
        show ?thesis
        proof (cases "Raw f = []")
          case True
          obtain r2 w2 where r2: "rv w (Type f) (Value f) = (r2, w2)" by (cases "rv w (Type f) (Value f)")
          with r [of w "Type f" "Value f"] have "fst (rv w0 (Type f) (Value f)) = r2" by simp
          with Some False nops True r2 show ?thesis
            by (cases r2) (simp_all add: Cons.IH)
        next
          case nonempty: False
          with Some False nops show ?thesis by (simp add: Cons.IH)
        qed
      next
        case (Some v)
        note hasv = this
        obtain r1 w1 where r1: "rv w (Type f) v = (r1, w1)" by (cases "rv w (Type f) v")
        with r [of w "Type f" v] have r1': "fst (rv w0 (Type f) v) = r1" by simp
        show ?thesis
        proof (cases r1)
          case (Inl e)
          with \<open>a = Some f\<close> False hasv r1 r1' show ?thesis by simp
        next
          case (Inr s)
          note s = this
          show ?thesis
          proof (cases "s = []")
            case True
            obtain r2 w2 where r2: "rv w1 (Type f) (Value f) = (r2, w2)"
              by (cases "rv w1 (Type f) (Value f)")
            with r [of w1 "Type f" "Value f"] have "fst (rv w0 (Type f) (Value f)) = r2" by simp
            with \<open>a = Some f\<close> False hasv r1 r1' s True r2 show ?thesis
              by (cases r2) (simp_all add: Cons.IH)
          next
            case nonempty: False
            with \<open>a = Some f\<close> \<open>\<not> NoValue f\<close> hasv r1 r1' s show ?thesis
              by (simp add: Cons.IH)
          qed
        qed
      qed
    qed
  qed
qed

lemma args_loop_in_result:
  assumes "\<forall>t v w w'. fst (rv w t v) = fst (rv w' t v)"
  shows "fst (args_loop_in rv ps al acc w) = args_loop (\<lambda>t v. fst (rv w0 t v)) ps al acc"
proof (induction al arbitrary: acc w)
  case Nil
  show ?case by simp
next
  case (Cons a al)
  have r: "\<And>w t v. fst (rv w t v) = fst (rv w0 t v)"
    using assms by blast
  show ?case
  proof (cases a)
    case None
    then show ?thesis by simp
  next
    case (Some x)
    show ?thesis
    proof (cases "ps (Parameter.Name x)")
      case None
      note nops = this
      show ?thesis
      proof (cases "Raw x = []")
        case True
        obtain r2 w2 where r2: "rv w (Type x) (Value x) = (r2, w2)"
          by (cases "rv w (Type x) (Value x)")
        with r [of w "Type x" "Value x"] have "fst (rv w0 (Type x) (Value x)) = r2" by simp
        with Some nops True r2 show ?thesis
          by (cases r2) (simp_all add: Cons.IH)
      next
        case nonempty: False
        with Some nops show ?thesis by (simp add: Cons.IH)
      qed
    next
      case (Some v)
      note hasv = this
      obtain r1 w1 where r1: "rv w (Type x) v = (r1, w1)" by (cases "rv w (Type x) v")
      with r [of w "Type x" v] have r1': "fst (rv w0 (Type x) v) = r1" by simp
      show ?thesis
      proof (cases r1)
        case (Inl e)
        with \<open>a = Some x\<close> hasv r1 r1' show ?thesis by simp
      next
        case (Inr s)
        note s = this
        show ?thesis
        proof (cases "s = []")
          case True
          obtain r2 w2 where r2: "rv w1 (Type x) (Value x) = (r2, w2)"
            by (cases "rv w1 (Type x) (Value x)")
          with r [of w1 "Type x" "Value x"] have "fst (rv w0 (Type x) (Value x)) = r2" by simp
          with \<open>a = Some x\<close> hasv r1 r1' s True r2 show ?thesis
            by (cases r2) (simp_all add: Cons.IH)
        next
          case nonempty: False
          with \<open>a = Some x\<close> hasv r1 r1' s show ?thesis
            by (simp add: Cons.IH)
        qed
      qed
    qed
  qed
qed

lemma ComputeArgs_in_result:
  assumes "\<forall>t v w w'. fst (rv w t v) = fst (rv w' t v)"
  shows "fst (ComputeArgs_in rv p ps w) = ComputeArgs (\<lambda>t v. fst (rv w0 t v)) p ps"
proof -
  obtain r1 w1 where
    f: "flags_loop_in rv ps (Flags p) (([] @ Verbs p) @ RawFlags p) w = (r1, w1)"
    by (cases "flags_loop_in rv ps (Flags p) (([] @ Verbs p) @ RawFlags p) w")
  with flags_loop_in_result [OF assms, of ps "Flags p" "([] @ Verbs p) @ RawFlags p" w w0]
  have "flags_loop (\<lambda>t v. fst (rv w0 t v)) ps (Flags p) (([] @ Verbs p) @ RawFlags p) = r1"
    by simp
  with f show ?thesis
    by (cases r1) (simp_all add: ComputeArgs_in_def ComputeArgs_def args_loop_in_result [OF assms])
qed

text \<open>
  A renderer that is a function of its two arguments and leaves the world alone
  gives the \<open>ComputeArgs\<close> above.
\<close>

lemma ComputeArgs_in_pure:
  "fst (ComputeArgs_in (\<lambda>w t v. (rv t v, w)) p ps w) = ComputeArgs rv p ps"
  using ComputeArgs_in_result [of "\<lambda>w t v. (rv t v, w)" p ps w undefined] by simp




text \<open>
  The hypothesis is needed: with the renderer whose text for a \<open>keyValue\<close> changes
  from call to call, a second call of \<open>ComputeArgs\<close> on the same inputs returns
  another vector than the first.
\<close>

lemma ComputeArgs_in_unstable:
  "fst (ComputeArgs_in example_render_unstable
          (example_program\<lparr> Flags := [], Args := [Some \<lparr> Parameter.Name = ''labels'', Flag = [],
             Short = [], Type = ''keyValue'', Value = [], Raw = [], NoValue = False \<rparr>] \<rparr>)
          [''labels'' \<mapsto> ''m''] 0)
     = Inr [''search'', ''-r'', ''a:1,b:2'']"
  "fst (ComputeArgs_in example_render_unstable
          (example_program\<lparr> Flags := [], Args := [Some \<lparr> Parameter.Name = ''labels'', Flag = [],
             Short = [], Type = ''keyValue'', Value = [], Raw = [], NoValue = False \<rparr>] \<rparr>)
          [''labels'' \<mapsto> ''m''] 1)
     = Inr [''search'', ''-r'', ''b:2,a:1'']"
  by (simp_all add: ComputeArgs_in_def example_render_unstable_def example_program_def)

section \<open>RunIntoWriter: what it returns\<close>



text \<open>
  C10. The result of \<open>RunIntoWriter\<close> does not depend on its \<open>parsedLayers\<close>
  argument: for every system, program, context, runtime value map and writer, any two
  values of \<open>parsedLayers\<close> (of any two types) give the same returned error, the same
  contents of the writer and the same command run, and with it the same argument
  vector.
\<close>

theorem RunIntoWriter_parsedLayers_unused:
  "RunIntoWriter sys rv p ctx parsedLayers ps w = RunIntoWriter sys rv p ctx parsedLayers' ps w"
  by (simp add: RunIntoWriter_def)

section \<open>RunIntoWriter: the exit status of the child\<close>









section \<open>The loader: which files are decoded\<close>

lemma prefix_dot_hidden: "prefix ''.'' name \<longleftrightarrow> hidden name"
  by (cases name) (auto simp: hidden_def)

lemma load_walk:
  "(\<forall>d \<in> set (walked_dirs node). \<exists>entries. d = Dir entries) \<Longrightarrow>
   (\<forall>(path, f) \<in> set (yaml_files join node dir). decodable decode f) \<Longrightarrow>
   LoadProgramsFromFS join decode node dir
     = Inr (map (\<lambda>(path, f). decoded decode f) (yaml_files join node dir))"
  "(\<forall>d \<in> set (walked_dirs_in entries). \<exists>entries. d = Dir entries) \<Longrightarrow>
   (\<forall>(path, f) \<in> set (yaml_files_in join entries dir). decodable decode f) \<Longrightarrow>
   entries_loop join decode entries dir programs
     = Inr (programs @ map (\<lambda>(path, f). decoded decode f) (yaml_files_in join entries dir))"
proof (induction join decode node dir and join decode entries dir programs
        rule: LoadProgramsFromFS_entries_loop.induct)
  case (1 join decode entries dir)
  then show ?case by simp
next
  case (2 join decode err dir)
  then show ?case by simp
next
  case (3 join decode contents dir)
  then show ?case by simp
next
  case (4 join decode err dir)
  then show ?case by simp
next
  case (5 join decode dir programs)
  then show ?case by simp
next
  case (6 join decode name entry rest dir programs)
  show ?case
  proof (cases "hidden name")
    case True
    with 6 show ?thesis by (simp add: prefix_dot_hidden)
  next
    case False
    note nh = this
    show ?thesis
    proof (cases "IsDir entry")
      case True
      with nh 6 show ?thesis
        by (simp add: prefix_dot_hidden Let_def ball_Un)
    next
      case False
      note nd = this
      show ?thesis
      proof (cases "yaml_name name")
        case True
        with nh nd "6.prems" obtain contents program where
          f: "entry = File contents" and d: "decode contents = Inr program"
          by (auto simp: decodable_def split: fsnode.splits sum.splits)
        with nh nd True 6 show ?thesis
          by (simp add: prefix_dot_hidden Let_def yaml_name_def NewProgramFromYAML_def
              decoded_def)
      next
        case False
        with nh nd 6 show ?thesis
          by (simp add: prefix_dot_hidden Let_def yaml_name_def)
      qed
    qed
  qed
qed


lemma load_Inr_walk:
  "LoadProgramsFromFS join decode node dir = Inr result \<Longrightarrow>
   (\<forall>d \<in> set (walked_dirs node). \<exists>entries. d = Dir entries) \<and>
   (\<forall>(path, f) \<in> set (yaml_files join node dir). decodable decode f)"
  "entries_loop join decode entries dir programs = Inr result \<Longrightarrow>
   (\<forall>d \<in> set (walked_dirs_in entries). \<exists>entries. d = Dir entries) \<and>
   (\<forall>(path, f) \<in> set (yaml_files_in join entries dir). decodable decode f)"
proof (induction join decode node dir and join decode entries dir programs
        arbitrary: result and result
        rule: LoadProgramsFromFS_entries_loop.induct)
  case (1 join decode entries dir)
  then show ?case by simp
next
  case (2 join decode err dir)
  then show ?case by simp
next
  case (3 join decode contents dir)
  then show ?case by simp
next
  case (4 join decode err dir)
  then show ?case by simp
next
  case (5 join decode dir programs)
  then show ?case by simp
next
  case (6 join decode name entry rest dir programs)
  show ?case
  proof (cases "hidden name")
    case True
    with 6 show ?thesis by (simp add: prefix_dot_hidden)
  next
    case False
    note nh = this
    show ?thesis
    proof (cases "IsDir entry")
      case True
      with nh "6.prems" obtain sub where
        sub: "LoadProgramsFromFS join decode entry (join dir name) = Inr sub" and
        rest: "entries_loop join decode rest dir (programs @ sub) = Inr result"
        by (auto simp: prefix_dot_hidden Let_def split: sum.splits)
      from "6.IH"(2) [OF _ refl True sub] nh
      have a: "(\<forall>d \<in> set (walked_dirs entry). \<exists>entries. d = Dir entries) \<and>
          (\<forall>(path, f) \<in> set (yaml_files join entry (join dir name)). decodable decode f)"
        by (simp add: prefix_dot_hidden)
      from "6.IH"(3) [OF _ refl True sub rest] nh
      have b: "(\<forall>d \<in> set (walked_dirs_in rest). \<exists>entries. d = Dir entries) \<and>
          (\<forall>(path, f) \<in> set (yaml_files_in join rest dir). decodable decode f)"
        by (simp add: prefix_dot_hidden)
      from a b nh True show ?thesis by (simp add: ball_Un)
    next
      case False
      note nd = this
      show ?thesis
      proof (cases "yaml_name name")
        case True
        with nh nd "6.prems" obtain contents program where
          f: "Open entry = Inr contents" and
          d: "NewProgramFromYAML decode contents = Inr program" and
          rest: "entries_loop join decode rest dir (programs @ [program]) = Inr result"
          by (auto simp: prefix_dot_hidden Let_def yaml_name_def split: sum.splits)
        from f nd d have dec: "decodable decode entry"
          by (cases entry) (auto simp: decodable_def NewProgramFromYAML_def split: sum.splits)
        from "6.IH"(4) [OF _ refl nd _ f d rest] nh True
        have b: "(\<forall>d \<in> set (walked_dirs_in rest). \<exists>entries. d = Dir entries) \<and>
          (\<forall>(path, f) \<in> set (yaml_files_in join rest dir). decodable decode f)"
          by (simp add: prefix_dot_hidden yaml_name_def)
        from b dec nh nd True show ?thesis by simp
      next
        case False
        with nh nd "6.prems" have
          rest: "entries_loop join decode rest dir programs = Inr result"
          by (auto simp: prefix_dot_hidden Let_def yaml_name_def split: sum.splits)
        from "6.IH"(5) [OF _ refl nd _ rest] nh False
        have b: "(\<forall>d \<in> set (walked_dirs_in rest). \<exists>entries. d = Dir entries) \<and>
          (\<forall>(path, f) \<in> set (yaml_files_in join rest dir). decodable decode f)"
          by (simp add: prefix_dot_hidden yaml_name_def)
        from b nh nd False show ?thesis by simp
      qed
    qed
  qed
qed


lemma example_yaml_files:
  "yaml_files example_join example_repoA ''.''
     = [(''foo.yaml'', File ''foo''), (''sub/bar.yml'', File ''bar'')]"
  by (simp add: example_repoA_def hidden_def yaml_name_def example_join_def suffix_def)

lemma example_walked_dirs:
  "walked_dirs example_repoA
     = [example_repoA, Dir [(''bar.yml'', File ''bar''), (''.hidden.yaml'', File ''foo'')]]"
  by (simp add: example_repoA_def hidden_def)

text \<open>
  C8. \<open>LoadProgramsFromFS\<close> walks the tree to any depth, skips every entry whose name
  starts with a dot, and decodes the files whose names end in \<open>.yaml\<close> or \<open>.yml\<close>
  into one program each, in the order of the walk; every other file is ignored,
  whatever it is. It returns a list exactly when every directory it walks can be
  read and every such file decodes, and the list is then the programs of those files.
\<close>

theorem LoadProgramsFromFS_walk:
  "LoadProgramsFromFS join decode root dir = Inr programs \<longleftrightarrow>
     (\<forall>d \<in> set (walked_dirs root). \<exists>entries. d = Dir entries) \<and>
     (\<forall>(path, f) \<in> set (yaml_files join root dir). decodable decode f) \<and>
     programs = map (\<lambda>(path, f). decoded decode f) (yaml_files join root dir)"
  using load_walk(1) [of root join dir decode] load_Inr_walk(1) [of join decode root dir programs]
  by auto

theorem LoadProgramsFromFS_walk_witness:
  "LoadProgramsFromFS example_join example_decode example_repoA ''.''
     = Inr [example_program\<lparr> Program.Name := ''foo'' \<rparr>, example_program\<lparr> Program.Name := ''bar'' \<rparr>]"
proof (rule LoadProgramsFromFS_walk [THEN iffD2], intro conjI)
  show "\<forall>d \<in> set (walked_dirs example_repoA). \<exists>entries. d = Dir entries"
    unfolding example_walked_dirs by (simp add: example_repoA_def)
  show "\<forall>(path, f) \<in> set (yaml_files example_join example_repoA ''.''). decodable example_decode f"
    unfolding example_yaml_files by (simp add: decodable_def example_decode_def)
  show "[example_program\<lparr> Program.Name := ''foo'' \<rparr>, example_program\<lparr> Program.Name := ''bar'' \<rparr>]
      = map (\<lambda>(path, f). decoded example_decode f) (yaml_files example_join example_repoA ''.'')"
    unfolding example_yaml_files by (simp add: decoded_def example_decode_def)
qed

section \<open>LoadRepositories: the registry and collisions\<close>

lemma merge_loop_Inr:
  "merge_loop programs' programs = Inr result \<Longrightarrow>
     distinct (map Program.Name programs') \<and>
     (\<forall>p \<in> set programs'. programs (Program.Name p) = None) \<and>
     dom result = dom programs \<union> Program.Name ` set programs'"
proof (induction programs' arbitrary: programs)
  case Nil
  then show ?case by simp
next
  case (Cons p rest)
  from Cons.prems have fresh: "programs (Program.Name p) = None"
    and rest: "merge_loop rest (programs(Program.Name p \<mapsto> p)) = Inr result"
    by (auto split: if_splits)
  from Cons.IH [OF rest] have
    d: "distinct (map Program.Name rest)" and
    f: "\<forall>q \<in> set rest. (programs(Program.Name p \<mapsto> p)) (Program.Name q) = None" and
    r: "dom result = dom (programs(Program.Name p \<mapsto> p)) \<union> Program.Name ` set rest"
    by blast+
  from f have "Program.Name p \<notin> Program.Name ` set rest"
    by (auto split: if_splits)
  moreover from f have "\<forall>q \<in> set rest. programs (Program.Name q) = None"
    by (auto split: if_splits)
  ultimately show ?case using d fresh r by auto
qed

lemma merge_loop_Inl:
  "merge_loop programs' programs = Inl e \<Longrightarrow>
     \<exists>pre p post. programs' = pre @ p # post \<and>
       (programs (Program.Name p) \<noteq> None \<or> Program.Name p \<in> Program.Name ` set pre) \<and>
       e = Errorf (''program '' @ Program.Name p @ '' already exists'')"
proof (induction programs' arbitrary: programs)
  case Nil
  then show ?case by simp
next
  case (Cons q rest)
  show ?case
  proof (cases "programs (Program.Name q) = None")
    case False
    with Cons.prems have "e = Errorf (''program '' @ Program.Name q @ '' already exists'')"
      by auto
    with False have "q # rest = [] @ q # rest \<and>
       (programs (Program.Name q) \<noteq> None \<or> Program.Name q \<in> Program.Name ` set []) \<and>
       e = Errorf (''program '' @ Program.Name q @ '' already exists'')"
      by simp
    then show ?thesis by blast
  next
    case True
    with Cons.prems have "merge_loop rest (programs(Program.Name q \<mapsto> q)) = Inl e"
      by simp
    from Cons.IH [OF this] obtain pre p post where
      r: "rest = pre @ p # post" and
      c: "(programs(Program.Name q \<mapsto> q)) (Program.Name p) \<noteq> None
            \<or> Program.Name p \<in> Program.Name ` set pre" and
      e: "e = Errorf (''program '' @ Program.Name p @ '' already exists'')"
      by blast
    from c have "programs (Program.Name p) \<noteq> None
        \<or> Program.Name p \<in> Program.Name ` set (q # pre)"
      by (auto split: if_splits)
    with r e have "q # rest = (q # pre) @ p # post \<and>
       (programs (Program.Name p) \<noteq> None \<or> Program.Name p \<in> Program.Name ` set (q # pre)) \<and>
       e = Errorf (''program '' @ Program.Name p @ '' already exists'')"
      by simp
    then show ?thesis by blast
  qed
qed

lemma repositories_loop_Cons_loaded:
  "loaded join decode stat r = Some ps \<Longrightarrow>
   repositories_loop join decode stat (r # rs) programs =
     (case merge_loop ps programs of
        Inl err \<Rightarrow> Inl err
      | Inr programs' \<Rightarrow> repositories_loop join decode stat rs programs')"
  by (auto simp: loaded_def split: sum.splits)

lemma repositories_loop_Cons_not_loaded:
  "loaded join decode stat r = None \<Longrightarrow>
   \<exists>e. repositories_loop join decode stat (r # rs) programs = Inl e"
  by (auto simp: loaded_def split: sum.splits)

lemma all_loaded_Cons:
  "all_loaded join decode stat (r # rs)
     = the (loaded join decode stat r) @ all_loaded join decode stat rs"
  by (simp add: all_loaded_def)

lemma repositories_loop_Inr:
  "repositories_loop join decode stat rs programs = Inr result \<Longrightarrow>
     (\<forall>r \<in> set rs. loaded join decode stat r \<noteq> None) \<and>
     distinct (map Program.Name (all_loaded join decode stat rs)) \<and>
     (\<forall>p \<in> set (all_loaded join decode stat rs). programs (Program.Name p) = None) \<and>
     dom result = dom programs \<union> Program.Name ` set (all_loaded join decode stat rs)"
proof (induction rs arbitrary: programs)
  case Nil
  then show ?case by (simp add: all_loaded_def)
next
  case (Cons r rs)
  from Cons.prems repositories_loop_Cons_not_loaded [of join decode stat r rs programs]
  obtain ps where l: "loaded join decode stat r = Some ps"
    by (cases "loaded join decode stat r") auto
  from Cons.prems [unfolded repositories_loop_Cons_loaded [OF l]] obtain mid where
    m: "merge_loop ps programs = Inr mid" and
    rest: "repositories_loop join decode stat rs mid = Inr result"
    by (auto split: sum.splits)
  from merge_loop_Inr [OF m] have
    m1: "distinct (map Program.Name ps)" and
    m2: "\<forall>p \<in> set ps. programs (Program.Name p) = None" and
    m3: "dom mid = dom programs \<union> Program.Name ` set ps"
    by blast+
  from Cons.IH [OF rest] have
    r0: "\<forall>r \<in> set rs. loaded join decode stat r \<noteq> None" and
    r1: "distinct (map Program.Name (all_loaded join decode stat rs))" and
    r2: "\<forall>p \<in> set (all_loaded join decode stat rs). mid (Program.Name p) = None" and
    r3: "dom result = dom mid \<union> Program.Name ` set (all_loaded join decode stat rs)"
    by blast+
  from r2 m3 have r2': "\<forall>p \<in> set (all_loaded join decode stat rs).
      programs (Program.Name p) = None \<and> Program.Name p \<notin> Program.Name ` set ps"
    by (metis UnCI domIff)
  have "Program.Name ` set ps \<inter> Program.Name ` set (all_loaded join decode stat rs) = {}"
  proof (rule ccontr)
    assume "Program.Name ` set ps \<inter> Program.Name ` set (all_loaded join decode stat rs) \<noteq> {}"
    then obtain n where n: "n \<in> Program.Name ` set ps"
      and "n \<in> Program.Name ` set (all_loaded join decode stat rs)" by blast
    then obtain p where "p \<in> set (all_loaded join decode stat rs)" "n = Program.Name p" by blast
    with r2' n show False by simp
  qed
  then have "distinct (map Program.Name (ps @ all_loaded join decode stat rs))"
    using m1 r1 by simp
  moreover have "\<forall>p \<in> set (ps @ all_loaded join decode stat rs). programs (Program.Name p) = None"
    using m2 r2' by auto
  moreover have "dom result
      = dom programs \<union> Program.Name ` set (ps @ all_loaded join decode stat rs)"
    using m3 r3 by auto
  ultimately show ?case
    using l r0 by (simp add: all_loaded_Cons)
qed

lemma repositories_loop_Inl:
  "\<forall>r \<in> set rs. loaded join decode stat r \<noteq> None \<Longrightarrow>
   repositories_loop join decode stat rs programs = Inl e \<Longrightarrow>
     \<exists>pre p post. all_loaded join decode stat rs = pre @ p # post \<and>
       (programs (Program.Name p) \<noteq> None \<or> Program.Name p \<in> Program.Name ` set pre) \<and>
       e = Errorf (''program '' @ Program.Name p @ '' already exists'')"
proof (induction rs arbitrary: programs)
  case Nil
  then show ?case by simp
next
  case (Cons r rs)
  from Cons.prems(1) obtain ps where l: "loaded join decode stat r = Some ps" by auto
  show ?case
  proof (cases "merge_loop ps programs")
    case (Inl e')
    with Cons.prems(2) [unfolded repositories_loop_Cons_loaded [OF l]] have "e' = e"
      by simp
    with Inl merge_loop_Inl [of ps programs e] obtain pre p post where
      "ps = pre @ p # post" and
      c: "programs (Program.Name p) \<noteq> None \<or> Program.Name p \<in> Program.Name ` set pre" and
      e: "e = Errorf (''program '' @ Program.Name p @ '' already exists'')"
      by blast
    then have "all_loaded join decode stat (r # rs)
        = pre @ p # (post @ all_loaded join decode stat rs)"
      using l by (simp add: all_loaded_Cons)
    with c e show ?thesis by blast
  next
    case (Inr mid)
    with Cons.prems(2) [unfolded repositories_loop_Cons_loaded [OF l]]
    have "repositories_loop join decode stat rs mid = Inl e"
      by simp
    from Cons.IH [OF _ this] Cons.prems(1) obtain pre p post where
      a: "all_loaded join decode stat rs = pre @ p # post" and
      c: "mid (Program.Name p) \<noteq> None \<or> Program.Name p \<in> Program.Name ` set pre" and
      e: "e = Errorf (''program '' @ Program.Name p @ '' already exists'')"
      by auto
    from merge_loop_Inr [OF Inr] have "dom mid = dom programs \<union> Program.Name ` set ps"
      by blast
    with c have c': "programs (Program.Name p) \<noteq> None
        \<or> Program.Name p \<in> Program.Name ` set (ps @ pre)"
      by (auto simp: domIff set_eq_iff)
    from a l have "all_loaded join decode stat (r # rs) = (ps @ pre) @ p # post"
      by (simp add: all_loaded_Cons)
    with c' e show ?thesis by blast
  qed
qed

lemma repositories_loop_append:
  "repositories_loop join decode stat (rs @ rest) programs =
     (case repositories_loop join decode stat rs programs of
        Inl e \<Rightarrow> Inl e
      | Inr programs' \<Rightarrow> repositories_loop join decode stat rest programs')"
  by (induction rs arbitrary: programs) (auto split: sum.splits)

lemma example_loaded:
  "loaded example_join example_decode example_stat ''repoA''
     = Some [example_program\<lparr> Program.Name := ''foo'' \<rparr>, example_program\<lparr> Program.Name := ''bar'' \<rparr>]"
  "loaded example_join example_decode example_stat ''repoB''
     = Some [example_program\<lparr> Program.Name := ''foo'' \<rparr>]"
  "loaded example_join example_decode example_stat ''repoC''
     = Some [example_program\<lparr> Program.Name := ''baz'' \<rparr>, example_program\<lparr> Program.Name := ''baz'' \<rparr>]"
  by (simp_all add: loaded_def example_stat_def example_repoA_def example_join_def
      example_decode_def NewProgramFromYAML_def suffix_def)

lemma example_collisions:
  "LoadRepositories example_join example_decode example_stat [''repoA'', ''repoB'']
     = Inl (Errorf ''program foo already exists'')"
  "LoadRepositories example_join example_decode example_stat [''repoC'', ''missing'']
     = Inl (Errorf ''program baz already exists'')"
  by (simp_all add: LoadRepositories_def repositories_loop_Cons_loaded example_loaded
      del: repositories_loop.simps(2))

lemma LoadRepositories_registry:
  assumes "LoadRepositories join decode stat rs = Inr registry"
  shows "(\<forall>r \<in> set rs. loaded join decode stat r \<noteq> None) \<and>
     distinct (map Program.Name (all_loaded join decode stat rs)) \<and>
     dom registry = Program.Name ` set (all_loaded join decode stat rs)"
  using repositories_loop_Inr [OF assms [unfolded LoadRepositories_def]] by simp

text \<open>
  C6. \<open>LoadRepositories\<close> fails with a collision error, and returns no registry,
  whenever a program name would be registered twice: if the repositories \<open>rs\<close> all
  load and two of their programs have the same name, whether they come from two
  repositories or from two files of one, the result is the error
  \<open>program NAME already exists\<close> for the first program \<open>p\<close>, in the order of loading,
  whose name an earlier program has; the repositories after \<open>rs\<close> are not looked at.
\<close>

theorem LoadRepositories_collision:
  assumes "\<forall>r \<in> set rs. loaded join decode stat r \<noteq> None"
    and "\<not> distinct (map Program.Name (all_loaded join decode stat rs))"
  shows "\<exists>pre p post. all_loaded join decode stat rs = pre @ p # post \<and>
     Program.Name p \<in> Program.Name ` set pre \<and>
     LoadRepositories join decode stat (rs @ rest)
       = Inl (Errorf (''program '' @ Program.Name p @ '' already exists''))"
proof -
  have "\<exists>e. repositories_loop join decode stat rs Map.empty = Inl e"
  proof (cases "repositories_loop join decode stat rs Map.empty")
    case (Inl e)
    then show ?thesis by blast
  next
    case (Inr result)
    from repositories_loop_Inr [OF this] assms(2) show ?thesis by blast
  qed
  then obtain e where e: "repositories_loop join decode stat rs Map.empty = Inl e" ..
  from repositories_loop_Inl [OF assms(1) e] obtain pre p post where
    a: "all_loaded join decode stat rs = pre @ p # post" and
    c: "Program.Name p \<in> Program.Name ` set pre" and
    m: "e = Errorf (''program '' @ Program.Name p @ '' already exists'')"
    by auto
  have "LoadRepositories join decode stat (rs @ rest) = Inl e"
    by (simp add: LoadRepositories_def repositories_loop_append e)
  with a c m show ?thesis by blast
qed

theorem LoadRepositories_collision_witness:
  "(\<exists>pre p post.
      all_loaded example_join example_decode example_stat [''repoA'', ''repoB''] = pre @ p # post \<and>
      Program.Name p \<in> Program.Name ` set pre \<and>
      LoadRepositories example_join example_decode example_stat ([''repoA'', ''repoB''] @ [])
        = Inl (Errorf (''program '' @ Program.Name p @ '' already exists''))) \<and>
   (\<exists>pre p post.
      all_loaded example_join example_decode example_stat [''repoC''] = pre @ p # post \<and>
      Program.Name p \<in> Program.Name ` set pre \<and>
      LoadRepositories example_join example_decode example_stat ([''repoC''] @ [''missing''])
        = Inl (Errorf (''program '' @ Program.Name p @ '' already exists'')))"
proof (rule conjI)
  show "\<exists>pre p post.
      all_loaded example_join example_decode example_stat [''repoA'', ''repoB''] = pre @ p # post \<and>
      Program.Name p \<in> Program.Name ` set pre \<and>
      LoadRepositories example_join example_decode example_stat ([''repoA'', ''repoB''] @ [])
        = Inl (Errorf (''program '' @ Program.Name p @ '' already exists''))"
    by (rule LoadRepositories_collision) (simp_all add: all_loaded_def example_loaded)
  show "\<exists>pre p post.
      all_loaded example_join example_decode example_stat [''repoC''] = pre @ p # post \<and>
      Program.Name p \<in> Program.Name ` set pre \<and>
      LoadRepositories example_join example_decode example_stat ([''repoC''] @ [''missing''])
        = Inl (Errorf (''program '' @ Program.Name p @ '' already exists''))"
    by (rule LoadRepositories_collision) (simp_all add: all_loaded_def example_loaded)
qed

section \<open>The change handler: what it does\<close>

lemma base_loop_find:
  "base_loop path files' basePath
     = (case List.find (\<lambda>file. prefix file path) files' of None \<Rightarrow> basePath | Some file \<Rightarrow> file)"
  by (induction files') simp_all

lemma watch_handler_paths:
  assumes "List.find (\<lambda>file. prefix file path) files' = Some base"
  shows "watch_handler join files' outputDirectory path =
     ([LogInfo [(''path'', path)] ''File changed'',
       LogInfo [(''path'', path), (''basePath'', base),
                (''outputPath'', join outputDirectory (drop (length base) path))]
         ''File changed''],
      None)"
proof -
  from assms have "prefix base path"
    by (auto simp: find_Some_iff)
  with assms show ?thesis
    by (simp add: watch_handler_def base_loop_find TrimPrefix_def)
qed

text \<open>
  C9, at a change of \<open>docs/api/a.md\<close> under the roots \<open>docs\<close> and \<open>docs/api\<close> with
  output directory \<open>out\<close>. The handler takes the first root that is a prefix of the
  path, \<open>docs\<close>, as base, and computes the output path \<open>out/api/a.md\<close>; then it
  logs both and returns nil. It does not call the renderer: no \<open>RenderFile\<close> of the
  changed file to the computed path is among its effects.
\<close>

theorem watch_handler_no_render:
  "watch_handler example_join [''docs'', ''docs/api''] ''out'' ''docs/api/a.md'' =
     ([LogInfo [(''path'', ''docs/api/a.md'')] ''File changed'',
       LogInfo [(''path'', ''docs/api/a.md''), (''basePath'', ''docs''),
                (''outputPath'', ''out/api/a.md'')] ''File changed''],
      None)
   \<and> RenderFile ''docs/api/a.md'' ''out/api/a.md''
       \<notin> set (fst (watch_handler example_join [''docs'', ''docs/api''] ''out'' ''docs/api/a.md''))"
  by (simp add: watch_handler_def TrimPrefix_def example_join_def)

section \<open>Clone: what the clone shares with the original\<close>

lemmas store_ops =
  Program_Clone_def make_strings_def make_pointers_def make_map_def copy_strings_def
  strings_at_def pointers_at_def entries_at_def Parameter_Clone_def set_pointer_def
  set_entry_def set_string_def set_verb_def flag_at_def set_flag_value_elem_def
  program_verbs_def program_rawFlags_def program_env_def flag_value_list_def SetFlagValue_def

text \<open>
  For every program: the clone's \<open>Verbs\<close> is the slice of the original, and a cloned
  parameter holds the \<open>Value\<close> of the original, a reference when it is a list or a map.
\<close>

lemma Program_Clone_Verbs:
  assumes "Program_Clone st (Some a) = Inr (c, st')"
  shows "\<exists>orig b clone. program_cells st a = Some orig \<and> c = Some b \<and>
     program_cells st' b = Some clone \<and> Verbs clone = Verbs orig"
  using assms
  by (auto simp: Program_Clone_def Let_def make_strings_def make_pointers_def make_map_def
      split: option.splits sum.splits prod.splits)

lemma Parameter_Clone_Value:
  assumes "Parameter_Clone st (Some a) = Inr (c, st')"
  shows "\<exists>x b y. parameter_cells st a = Some x \<and> c = Some b \<and>
     parameter_cells st' b = Some y \<and> Value y = Value x"
  using assms
  by (auto simp: Parameter_Clone_def split: option.splits)

text \<open>
  C3, at the program of the example store. \<open>Clone\<close> returns a clone with the same
  verbs and the same list in the value of its flag. Then \<open>clone.Verbs[0] = "delete"\<close>
  changes the verbs of the original, and an update in place of the list held in
  \<open>clone.Flags[0].Value\<close> changes the list the original's flag holds: the clone's
  \<open>Verbs\<close> slice and the list in \<open>Value\<close> are the original's own.
\<close>

theorem Program_Clone_shares_storage:
  "case Program_Clone example_store (Some 0) of
     Inl _ \<Rightarrow> False
   | Inr (clone, st) \<Rightarrow>
       clone \<noteq> Some 0 \<and>
       program_verbs st (Some 0) = Inr [''search''] \<and>
       program_verbs st clone = Inr [''search''] \<and>
       (case set_verb st clone 0 ''delete'' of
          Inl _ \<Rightarrow> False
        | Inr st' \<Rightarrow> program_verbs st' (Some 0) = Inr [''delete'']) \<and>
       flag_value_list st (Some 0) 0 = Inr [VString ''*.go''] \<and>
       flag_value_list st clone 0 = Inr [VString ''*.go''] \<and>
       (case set_flag_value_elem st clone 0 0 (VString ''*.c'') of
          Inl _ \<Rightarrow> False
        | Inr st' \<Rightarrow> flag_value_list st' (Some 0) 0 = Inr [VString ''*.c''])"
  by (simp add: store_ops example_store_def)

text \<open>
  In the same example, what \<open>Clone\<close> does copy: assigning a new value to the clone's
  flag with \<open>SetFlagValue\<close> leaves the original's flag as it was.
\<close>

lemma example_clone_SetFlagValue:
  "case Program_Clone example_store (Some 0) of
     Inl _ \<Rightarrow> False
   | Inr (clone, st) \<Rightarrow>
       program_rawFlags st clone = Inr [''-r''] \<and>
       program_env st clone = Inr [(''LANG'', ''C'')] \<and>
       (case SetFlagValue st clone ''include'' (VString ''*.c'') of
          Inl _ \<Rightarrow> False
        | Inr st' \<Rightarrow>
            (case flag_at st' clone 0 of Inl _ \<Rightarrow> False | Inr f \<Rightarrow> Value f = VString ''*.c'') \<and>
            flag_value_list st' (Some 0) 0 = Inr [VString ''*.go''])"
  by (simp add: store_ops example_store_def)

end
